theory Spec2Isabelle
  imports Complex_Main
begin

unbundle bit_operations_syntax

section \<open>JavaScript values as the client sees them\<close>

text \<open>
  Every inbound frame is the result of \<^verbatim>\<open>JSON.parse\<close>, so the values the client
  inspects are JSON values. Numbers are IEEE doubles in the runtime; the client never
  computes with them, it only tests their truthiness and (when a number is appended to
  the accumulated response or wrapped in an \<^verbatim>\<open>Error\<close>) converts them to a string.
  Both operations belong to the runtime, not to the client, and are taken as the
  parameter \<open>N\<close> of the model. The JavaScript value \<^verbatim>\<open>undefined\<close> (a missing
  property, a missing argument) is \<open>None\<close> of an option type. A JavaScript string is
  the list of its characters.
\<close>

datatype 'n json =
    JNull
  | JBool bool
  | JNum 'n
  | JStr string
  | JArr "'n json list"
  | JObj "(string \<times> 'n json) list"

record 'n numops =
  num_truthy :: "'n \<Rightarrow> bool"
  num_string :: "'n \<Rightarrow> string"

text \<open>
  \<open>get_prop v k\<close> is the property read \<^verbatim>\<open>v.k\<close> on a value that is neither
  \<^verbatim>\<open>null\<close> nor \<^verbatim>\<open>undefined\<close>, for the property names the client reads
  (\<^verbatim>\<open>request_id\<close>, \<^verbatim>\<open>type\<close>, \<^verbatim>\<open>error\<close>, \<^verbatim>\<open>data\<close>,
  \<^verbatim>\<open>choices\<close>, \<^verbatim>\<open>delta\<close>, \<^verbatim>\<open>message\<close>, \<^verbatim>\<open>content\<close>): none of
  them is a built-in property of an array, string, number or boolean, so only an object
  can answer. A parsed object lists each key once.
\<close>

fun get_prop :: "'n json \<Rightarrow> string \<Rightarrow> 'n json option" where
  "get_prop (JObj kvs) k = map_of kvs k"
| "get_prop _ k = None"

text \<open>The read \<^verbatim>\<open>v[0]\<close> on a value that is neither null nor undefined.\<close>

fun index0 :: "'n json \<Rightarrow> 'n json option" where
  "index0 (JArr xs) = (case xs of [] \<Rightarrow> None | x # _ \<Rightarrow> Some x)"
| "index0 (JStr s) = (case s of [] \<Rightarrow> None | c # _ \<Rightarrow> Some (JStr [c]))"
| "index0 (JObj kvs) = map_of kvs ''0''"
| "index0 _ = None"

text \<open>Optional chaining \<^verbatim>\<open>v?.k\<close>: undefined on null and undefined, the read otherwise.\<close>

fun opt_prop :: "'n json option \<Rightarrow> string \<Rightarrow> 'n json option" where
  "opt_prop None k = None"
| "opt_prop (Some JNull) k = None"
| "opt_prop (Some v) k = get_prop v k"

text \<open>Truthiness (\<^verbatim>\<open>ToBoolean\<close>).\<close>

fun truthy :: "'n numops \<Rightarrow> 'n json option \<Rightarrow> bool" where
  "truthy N None = False"
| "truthy N (Some JNull) = False"
| "truthy N (Some (JBool b)) = b"
| "truthy N (Some (JNum n)) = num_truthy N n"
| "truthy N (Some (JStr s)) = (s \<noteq> [])"
| "truthy N (Some (JArr xs)) = True"
| "truthy N (Some (JObj kvs)) = True"

text \<open>
  \<^verbatim>\<open>Array.prototype.join\<close> with the separator \<^verbatim>\<open>","\<close>, on the strings of the
  elements.
\<close>

fun join_comma :: "string list \<Rightarrow> string" where
  "join_comma [] = []"
| "join_comma [s] = s"
| "join_comma (s # t # ss) = s @ '','' @ join_comma (t # ss)"

datatype js_error = TypeError

text \<open>
  \<^verbatim>\<open>ToString\<close>, as \<^verbatim>\<open>new Error(m)\<close> and \<^verbatim>\<open>fullResponse += content\<close>
  apply it. An array prints its elements joined by commas, a null element as the empty
  string. A plain object prints as \<^verbatim>\<open>[object Object]\<close> through the inherited
  \<^verbatim>\<open>toString\<close>; when the object has a key \<^verbatim>\<open>toString\<close> of its own, that
  value (never a function in a parsed object) hides the inherited method, no method is
  left that yields a primitive, and the conversion throws a \<^verbatim>\<open>TypeError\<close>. The
  same holds for an object inside an array.
\<close>

fun to_string :: "'n numops \<Rightarrow> 'n json \<Rightarrow> js_error + string"
  and elems_string :: "'n numops \<Rightarrow> 'n json list \<Rightarrow> js_error + string list" where
  "to_string N JNull = Inr ''null''"
| "to_string N (JBool b) = Inr (if b then ''true'' else ''false'')"
| "to_string N (JNum n) = Inr (num_string N n)"
| "to_string N (JStr s) = Inr s"
| "to_string N (JArr xs) =
     (case elems_string N xs of Inl x \<Rightarrow> Inl x | Inr ss \<Rightarrow> Inr (join_comma ss))"
| "to_string N (JObj kvs) =
     (if map_of kvs ''toString'' \<noteq> None then Inl TypeError else Inr ''[object Object]'')"
| "elems_string N [] = Inr []"
| "elems_string N (v # vs) =
     (case (if v = JNull then Inr [] else to_string N v) of
        Inl x \<Rightarrow> Inl x
      | Inr s \<Rightarrow> (case elems_string N vs of Inl x \<Rightarrow> Inl x | Inr ss \<Rightarrow> Inr (s # ss)))"

text \<open>
  \<^verbatim>\<open>new Error(m)\<close>, represented by its message: the string of \<open>m\<close>, and the empty
  message when \<open>m\<close> is undefined. It throws when the conversion of \<open>m\<close> does.
\<close>

fun js_Error :: "'n numops \<Rightarrow> 'n json option \<Rightarrow> js_error + string" where
  "js_Error N None = Inr []"
| "js_Error N (Some m) = to_string N m"

section \<open>The client object\<close>

text \<open>
  A handler stored in \<^verbatim>\<open>messageHandlers\<close> is a closure; it is represented by the
  variables it captured. The chat handler of \<^verbatim>\<open>sendChatCompletion\<close> captured the
  promise's \<^verbatim>\<open>resolve\<close>/\<^verbatim>\<open>reject\<close> pair (a promise is named by its number of
  creation), \<^verbatim>\<open>requestId\<close>, the truthiness of \<^verbatim>\<open>stream\<close> and of
  \<^verbatim>\<open>onChunk\<close>, and the variable \<^verbatim>\<open>fullResponse\<close>, whose cell lives in the
  field \<open>fullResponse\<close> of the client under the promise's number. The handler of
  \<^verbatim>\<open>ping\<close> captured \<^verbatim>\<open>resolve\<close> and \<^verbatim>\<open>pingId\<close>.
\<close>

datatype handler =
    ChatHandler nat string bool bool
  | PingHandler nat string

fun promise_of :: "handler \<Rightarrow> nat" where
  "promise_of (ChatHandler p k st oc) = p"
| "promise_of (PingHandler p k) = p"

fun requestId_of :: "handler \<Rightarrow> string" where
  "requestId_of (ChatHandler p k st oc) = k"
| "requestId_of (PingHandler p k) = k"

text \<open>
  The calls the client makes to the caller's functions, in the order it makes them:
  \<^verbatim>\<open>resolve(v)\<close> and \<^verbatim>\<open>reject(new Error(m))\<close> of a promise, and
  \<^verbatim>\<open>onChunk(content)\<close> of the request that owns the promise.
\<close>

datatype 'n call =
    Resolve nat "'n json option"
  | Reject nat string
  | OnChunk nat "'n json"

text \<open>
  The state: the handler map of the client, the cells of the captured
  \<^verbatim>\<open>fullResponse\<close> variables, the pending timers of \<^verbatim>\<open>setTimeout\<close> (oldest
  first; all have the same delay, so they fire in this order), the calls made so far,
  the messages handed to \<^verbatim>\<open>ws.send\<close> (as objects, before serialisation), the
  number of promises created, and the outcomes of \<^verbatim>\<open>Math.random()\<close> with the
  number of them already drawn. The client is modelled on an open connection:
  \<^verbatim>\<open>ws.send\<close> hands the message to the transport and returns.
\<close>

record 'n client =
  messageHandlers :: "string \<rightharpoonup> handler"
  fullResponse :: "nat \<Rightarrow> string"
  timers :: "(string \<times> nat) list"
  calls :: "'n call list"
  sent :: "(string \<rightharpoonup> 'n json) list"
  promises :: nat
  math_random :: "nat \<Rightarrow> real"
  drawn :: nat

section \<open>generateUUID\<close>

text \<open>
  \<^verbatim>\<open>x | 0\<close> is \<^verbatim>\<open>ToInt32\<close>: truncate towards zero, reduce modulo \<open>2^32\<close>,
  read as a signed 32-bit integer.
\<close>

definition to_int32 :: "real \<Rightarrow> int" where
  "to_int32 x =
     (let t = (if x < 0 then \<lceil>x\<rceil> else \<lfloor>x\<rfloor>); m = t mod 2 ^ 32
      in if m \<ge> 2 ^ 31 then m - 2 ^ 32 else m)"

definition hex_digit :: "nat \<Rightarrow> char" where
  "hex_digit d = ''0123456789abcdef'' ! d"

fun hex_nat :: "nat \<Rightarrow> string" where
  "hex_nat n = (if n < 16 then [hex_digit n] else hex_nat (n div 16) @ [hex_digit (n mod 16)])"

text \<open>\<^verbatim>\<open>v.toString(16)\<close> of an integer \<open>v\<close>.\<close>

definition toString16 :: "int \<Rightarrow> string" where
  "toString16 v = (if v < 0 then CHR ''-'' # hex_nat (nat (- v)) else hex_nat (nat v))"

text \<open>
  The callback of \<^verbatim>\<open>replace\<close>: one draw of \<^verbatim>\<open>Math.random()\<close>,
  \<^verbatim>\<open>r = Math.random() * 16 | 0\<close>, and the digit of \<open>r\<close> for an \<^verbatim>\<open>x\<close>, of
  \<^verbatim>\<open>r & 0x3 | 0x8\<close> for a \<^verbatim>\<open>y\<close>.
\<close>

definition uuid_digit :: "char \<Rightarrow> 'n client \<Rightarrow> string \<times> 'n client" where
  "uuid_digit c s =
     (let r = to_int32 (math_random s (drawn s) * 16);
          v = (if c = CHR ''x'' then r else (r AND 3) OR 8)
      in (toString16 v, s\<lparr>drawn := Suc (drawn s)\<rparr>))"

text \<open>
  \<^verbatim>\<open>template.replace(/[xy]/g, callback)\<close>: left to right, every \<^verbatim>\<open>x\<close> and
  \<^verbatim>\<open>y\<close> is replaced by the callback's string, every other character is kept.
\<close>

fun replace_xy :: "string \<Rightarrow> 'n client \<Rightarrow> string \<times> 'n client" where
  "replace_xy [] s = ([], s)"
| "replace_xy (c # cs) s =
     (if c = CHR ''x'' \<or> c = CHR ''y''
      then (let (d, s1) = uuid_digit c s; (r, s2) = replace_xy cs s1 in (d @ r, s2))
      else (let (r, s2) = replace_xy cs s in (c # r, s2)))"

definition generateUUID :: "'n client \<Rightarrow> string \<times> 'n client" where
  "generateUUID s = replace_xy ''xxxxxxxx-xxxx-4xxx-yxxx-xxxxxxxxxxxx'' s"

text \<open>
  The standard layout of a random identifier, as the specification words it: 36
  characters, five groups of 8, 4, 4, 4 and 12 lower-case hexadecimal digits separated by
  hyphens, the first digit of the third group (the version) being 4 and the first digit
  of the fourth group (the variant) one of 8, 9, a, b.
\<close>

definition is_hex :: "char \<Rightarrow> bool" where
  "is_hex c = (c \<in> set ''0123456789abcdef'')"

definition uuid_layout :: "string \<Rightarrow> bool" where
  "uuid_layout u =
     (length u = 36 \<and>
      list_all is_hex (take 8 u) \<and> u ! 8 = CHR ''-'' \<and>
      list_all is_hex (take 4 (drop 9 u)) \<and> u ! 13 = CHR ''-'' \<and>
      list_all is_hex (take 4 (drop 14 u)) \<and> u ! 18 = CHR ''-'' \<and>
      list_all is_hex (take 4 (drop 19 u)) \<and> u ! 23 = CHR ''-'' \<and>
      list_all is_hex (drop 24 u) \<and>
      u ! 14 = CHR ''4'' \<and> u ! 19 \<in> set ''89ab'')"

section \<open>The correlation engine\<close>

text \<open>
  The constructor: an empty handler map. No promise exists, no timer is armed, nothing
  was called or sent; \<open>rnd\<close> are the outcomes \<^verbatim>\<open>Math.random()\<close> will give.
\<close>

definition new_client :: "(nat \<Rightarrow> real) \<Rightarrow> 'n client" where
  "new_client rnd =
     \<lparr>messageHandlers = Map.empty, fullResponse = (\<lambda>p. []), timers = [], calls = [],
      sent = [], promises = 0, math_random = rnd, drawn = 0\<rparr>"

text \<open>
  The expression \<^verbatim>\<open>v.choices[0]?.f?.content\<close>, evaluated where \<^verbatim>\<open>v.choices\<close>
  is truthy (the source guards it with \<^verbatim>\<open>v.choices &&\<close>); \<open>f\<close> is
  \<^verbatim>\<open>delta\<close> for a chunk and \<^verbatim>\<open>message\<close> for a completion.
\<close>

definition choice_content :: "'n json \<Rightarrow> string \<Rightarrow> 'n json option" where
  "choice_content v f =
     (case get_prop v ''choices'' of
        None \<Rightarrow> None
      | Some choices \<Rightarrow> opt_prop (opt_prop (index0 choices) f) ''content'')"

text \<open>
  The handler closure of \<^verbatim>\<open>sendChatCompletion\<close>, applied to a frame \<open>data\<close>
  (never null here: \<^verbatim>\<open>handleMessage\<close> has read a property of it). Reading
  \<^verbatim>\<open>choices\<close> of a payload that is undefined or null throws a
  \<^verbatim>\<open>TypeError\<close>, and so do \<^verbatim>\<open>new Error(data.error)\<close> and
  \<^verbatim>\<open>fullResponse += content\<close> when the value has no string; each time before
  anything was changed.
\<close>

definition chat_handler ::
  "'n numops \<Rightarrow> nat \<Rightarrow> string \<Rightarrow> bool \<Rightarrow> bool \<Rightarrow> 'n json \<Rightarrow> 'n client \<Rightarrow> js_error + 'n client" where
  "chat_handler N p requestId stream onChunk data s =
     (let type = get_prop data ''type'' in
      if type = Some (JStr ''error'') then
        (case js_Error N (get_prop data ''error'') of
           Inl x \<Rightarrow> Inl x
         | Inr m \<Rightarrow>
             Inr (s\<lparr>calls := calls s @ [Reject p m],
                    messageHandlers := (messageHandlers s)(requestId := None)\<rparr>))
      else if type = Some (JStr ''stream_chunk'') \<and> stream then
        (case get_prop data ''data'' of
           None \<Rightarrow> Inl TypeError
         | Some chunk \<Rightarrow>
             if chunk = JNull then Inl TypeError
             else if truthy N (get_prop chunk ''choices'') \<and> truthy N (choice_content chunk ''delta'')
             then (case choice_content chunk ''delta'' of
                     None \<Rightarrow> Inr s
                   | Some content \<Rightarrow>
                       (case to_string N content of
                          Inl x \<Rightarrow> Inl x
                        | Inr text \<Rightarrow>
                            Inr (s\<lparr>fullResponse := (fullResponse s)(p := fullResponse s p @ text),
                                   calls := (if onChunk then calls s @ [OnChunk p content]
                                             else calls s)\<rparr>)))
             else Inr s)
      else if type = Some (JStr ''stream_complete'') \<and> stream then
        Inr (s\<lparr>calls := calls s @ [Resolve p (Some (JStr (fullResponse s p)))],
               messageHandlers := (messageHandlers s)(requestId := None)\<rparr>)
      else if type = Some (JStr ''completion'') \<and> \<not> stream then
        (case get_prop data ''data'' of
           None \<Rightarrow> Inl TypeError
         | Some completion \<Rightarrow>
             if completion = JNull then Inl TypeError
             else
               Inr (s\<lparr>calls := calls s @
                        [Resolve p
                          (if truthy N (get_prop completion ''choices'') \<and>
                              truthy N (choice_content completion ''message'')
                           then choice_content completion ''message''
                           else Some completion)],
                      messageHandlers := (messageHandlers s)(requestId := None)\<rparr>))
      else Inr s)"

text \<open>The handler closure of \<^verbatim>\<open>ping\<close>.\<close>

definition ping_handler :: "nat \<Rightarrow> string \<Rightarrow> 'n json \<Rightarrow> 'n client \<Rightarrow> js_error + 'n client" where
  "ping_handler p pingId data s =
     (if get_prop data ''type'' = Some (JStr ''pong'') then
        Inr (s\<lparr>calls := calls s @ [Resolve p None],
               messageHandlers := (messageHandlers s)(pingId := None)\<rparr>)
      else Inr s)"

fun call_handler :: "'n numops \<Rightarrow> handler \<Rightarrow> 'n json \<Rightarrow> 'n client \<Rightarrow> js_error + 'n client" where
  "call_handler N (ChatHandler p k st oc) data s = chat_handler N p k st oc data s"
| "call_handler N (PingHandler p k) data s = ping_handler p k data s"

text \<open>
  \<^verbatim>\<open>messageHandlers.get(v)\<close> (and \<^verbatim>\<open>has(v)\<close>, which says whether it is
  defined). The keys of the handler map are the strings \<^verbatim>\<open>generateUUID\<close> made, so
  only a string can be found.
\<close>

fun handler_at :: "'n client \<Rightarrow> 'n json option \<Rightarrow> handler option" where
  "handler_at s (Some (JStr k)) = messageHandlers s k"
| "handler_at s _ = None"

text \<open>\<^verbatim>\<open>handleMessage(data)\<close>. Reading \<^verbatim>\<open>request_id\<close> of \<^verbatim>\<open>null\<close> throws.\<close>

definition handleMessage :: "'n numops \<Rightarrow> 'n json \<Rightarrow> 'n client \<Rightarrow> js_error + 'n client" where
  "handleMessage N data s =
     (if data = JNull then Inl TypeError
      else (let requestId = get_prop data ''request_id'' in
        if truthy N requestId \<and> handler_at s requestId \<noteq> None then
          (case handler_at s requestId of
             Some h \<Rightarrow> call_handler N h data s
           | None \<Rightarrow> Inr s)
        else Inr s))"

text \<open>
  The argument of \<^verbatim>\<open>sendChatCompletion\<close>: the destructured properties (undefined
  when absent; \<^verbatim>\<open>onChunk\<close> by its truthiness) and the remaining ones.
\<close>

record 'n options =
  opt_model :: "'n json option"
  opt_messages :: "'n json option"
  opt_stream :: "'n json option"
  opt_temperature :: "'n json option"
  opt_maxTokens :: "'n json option"
  opt_onChunk :: bool
  additionalParams :: "string \<rightharpoonup> 'n json"

text \<open>A destructuring default applies to an undefined property only.\<close>

fun with_default :: "'n json option \<Rightarrow> 'n json \<Rightarrow> 'n json" where
  "with_default None d = d"
| "with_default (Some v) d = v"

text \<open>\<^verbatim>\<open>request.k = v\<close> when \<open>v\<close> is not null.\<close>

definition set_unless_null :: "(string \<rightharpoonup> 'n json) \<Rightarrow> string \<Rightarrow> 'n json \<Rightarrow> (string \<rightharpoonup> 'n json)" where
  "set_unless_null request k v = (if v \<noteq> JNull then request(k \<mapsto> v) else request)"

text \<open>
  The request message of \<^verbatim>\<open>sendChatCompletion\<close>, as serialisation will see it (a
  property whose value is undefined is not serialised).
\<close>

definition build_request :: "'n options \<Rightarrow> string \<Rightarrow> (string \<rightharpoonup> 'n json)" where
  "build_request opts requestId =
     (let request =
            [''type'' \<mapsto> JStr ''chat_completion'', ''request_id'' \<mapsto> JStr requestId]
              (''model'' := opt_model opts, ''messages'' := opt_messages opts,
               ''stream'' \<mapsto> with_default (opt_stream opts) (JBool True))
            ++ additionalParams opts;
          request = set_unless_null request ''temperature'' (with_default (opt_temperature opts) JNull)
      in set_unless_null request ''max_tokens'' (with_default (opt_maxTokens opts) JNull))"

text \<open>
  \<^verbatim>\<open>sendChatCompletion(options)\<close>: a fresh identifier, a new promise with an empty
  \<^verbatim>\<open>fullResponse\<close>, the handler stored under the identifier, the request sent. The
  result is the promise.
\<close>

definition sendChatCompletion :: "'n numops \<Rightarrow> 'n options \<Rightarrow> 'n client \<Rightarrow> nat \<times> 'n client" where
  "sendChatCompletion N opts s =
     (let (requestId, s1) = generateUUID s;
          request = build_request opts requestId;
          p = promises s1;
          stream = truthy N (Some (with_default (opt_stream opts) (JBool True)))
      in (p, s1\<lparr>promises := Suc p,
                fullResponse := (fullResponse s1)(p := []),
                messageHandlers := (messageHandlers s1)(requestId \<mapsto> ChatHandler p requestId stream (opt_onChunk opts)),
                sent := sent s1 @ [request]\<rparr>))"

text \<open>
  \<^verbatim>\<open>ping()\<close>: as above with the heartbeat's handler, and a timer armed by
  \<^verbatim>\<open>setTimeout\<close> that holds \<^verbatim>\<open>pingId\<close> and the promise's \<^verbatim>\<open>reject\<close>.
\<close>

definition ping :: "'n client \<Rightarrow> nat \<times> 'n client" where
  "ping s =
     (let p = promises s;
          (pingId, s1) = generateUUID s
      in (p, s1\<lparr>promises := Suc p,
                messageHandlers := (messageHandlers s1)(pingId \<mapsto> PingHandler p pingId),
                sent := sent s1 @ [[''type'' \<mapsto> JStr ''ping'', ''request_id'' \<mapsto> JStr pingId]],
                timers := timers s1 @ [(pingId, p)]\<rparr>))"

text \<open>The callback given to \<^verbatim>\<open>setTimeout\<close>.\<close>

definition ping_timeout :: "string \<Rightarrow> nat \<Rightarrow> 'n client \<Rightarrow> 'n client" where
  "ping_timeout pingId p s =
     (if messageHandlers s pingId \<noteq> None then
        s\<lparr>messageHandlers := (messageHandlers s)(pingId := None),
          calls := calls s @ [Reject p ''Ping timeout'']\<rparr>
      else s)"

text \<open>The runtime fires the oldest pending timer: it leaves the queue and its callback runs.\<close>

definition fire_timer :: "'n client \<Rightarrow> 'n client" where
  "fire_timer s =
     (case timers s of
        [] \<Rightarrow> s
      | (pingId, p) # ts \<Rightarrow> ping_timeout pingId p (s\<lparr>timers := ts\<rparr>))"

subsection \<open>The event loop\<close>

text \<open>
  Everything happens as one event after another on one thread: the caller issues a
  request or a heartbeat, the transport delivers a parsed frame to
  \<^verbatim>\<open>handleMessage\<close>, or a timer fires. An exception ends the run.
\<close>

datatype 'n event =
    Send "'n options"
  | Ping
  | Message "'n json"
  | TimerFires

fun step :: "'n numops \<Rightarrow> 'n event \<Rightarrow> 'n client \<Rightarrow> js_error + 'n client" where
  "step N (Send opts) s = Inr (snd (sendChatCompletion N opts s))"
| "step N Ping s = Inr (snd (ping s))"
| "step N (Message data) s = handleMessage N data s"
| "step N TimerFires s = Inr (fire_timer s)"

fun run :: "'n numops \<Rightarrow> 'n event list \<Rightarrow> 'n client \<Rightarrow> js_error + 'n client" where
  "run N [] s = Inr s"
| "run N (e # es) s = (case step N e s of Inl x \<Rightarrow> Inl x | Inr s' \<Rightarrow> run N es s')"

text \<open>
  The identifiers are random, so two of them can coincide. \<open>unique_ids N evs s\<close> says
  that along the run of \<open>evs\<close> from \<open>s\<close> this does not happen: no identifier is
  generated while a handler is stored or a timer is pending under it.
\<close>

definition id_unused :: "string \<Rightarrow> 'n client \<Rightarrow> bool" where
  "id_unused k s = (messageHandlers s k = None \<and> k \<notin> fst ` set (timers s))"

fun generates :: "'n event \<Rightarrow> bool" where
  "generates (Send opts) = True"
| "generates Ping = True"
| "generates _ = False"

fun unique_ids :: "'n numops \<Rightarrow> 'n event list \<Rightarrow> 'n client \<Rightarrow> bool" where
  "unique_ids N [] s = True"
| "unique_ids N (e # es) s =
     ((generates e \<longrightarrow> id_unused (fst (generateUUID s)) s) \<and>
      (case step N e s of Inl x \<Rightarrow> True | Inr s' \<Rightarrow> unique_ids N es s'))"

subsection \<open>Frames of the wire protocol\<close>

text \<open>
  The inbound frames as the server sends them: an object with \<^verbatim>\<open>type\<close> and
  \<^verbatim>\<open>request_id\<close>, and for a chunk or a completion the payload \<^verbatim>\<open>data\<close> that
  holds \<^verbatim>\<open>choices[0].delta.content\<close> or \<^verbatim>\<open>choices[0].message.content\<close>.
\<close>

definition frame :: "string \<Rightarrow> string \<Rightarrow> (string \<times> 'n json) list \<Rightarrow> 'n json" where
  "frame type k kvs = JObj ((''type'', JStr type) # (''request_id'', JStr k) # kvs)"

definition delta_payload :: "'n json \<Rightarrow> 'n json" where
  "delta_payload content =
     JObj [(''choices'', JArr [JObj [(''delta'', JObj [(''content'', content)])]])]"

definition message_payload :: "'n json \<Rightarrow> 'n json" where
  "message_payload content =
     JObj [(''choices'', JArr [JObj [(''message'', JObj [(''content'', content)])]])]"

definition stream_chunk :: "string \<Rightarrow> string \<Rightarrow> 'n json" where
  "stream_chunk k text = frame ''stream_chunk'' k [(''data'', delta_payload (JStr text))]"

definition stream_complete :: "string \<Rightarrow> 'n json" where
  "stream_complete k = frame ''stream_complete'' k []"

definition completion :: "string \<Rightarrow> 'n json \<Rightarrow> 'n json" where
  "completion k payload = frame ''completion'' k [(''data'', payload)]"

definition error_frame :: "string \<Rightarrow> string \<Rightarrow> 'n json" where
  "error_frame k msg = frame ''error'' k [(''error'', JStr msg)]"

definition pong :: "string \<Rightarrow> 'n json" where
  "pong k = frame ''pong'' k []"

section \<open>Auxiliary notions for the proofs\<close>

text \<open>The contract of \<^verbatim>\<open>Math.random()\<close>: every outcome lies in \<open>[0, 1)\<close>.\<close>

definition unit_draws :: "'n client \<Rightarrow> bool" where
  "unit_draws s = (\<forall>i. 0 \<le> math_random s i \<and> math_random s i < 1)"

text \<open>What a character of the template lets stand in its place.\<close>

fun template_char :: "char \<Rightarrow> char \<Rightarrow> bool" where
  "template_char c d =
     (if c = CHR ''x'' then is_hex d else if c = CHR ''y'' then d \<in> set ''89ab'' else d = c)"

text \<open>
  A call settles promise \<open>p\<close> when it is \<^verbatim>\<open>resolve\<close> or \<^verbatim>\<open>reject\<close> of
  \<open>p\<close>; \<open>settle_count p cs\<close> counts such calls among \<open>cs\<close>.
\<close>

fun settles :: "nat \<Rightarrow> 'n call \<Rightarrow> bool" where
  "settles p (Resolve q v) = (q = p)"
| "settles p (Reject q m) = (q = p)"
| "settles p (OnChunk q c) = False"

definition settle_count :: "nat \<Rightarrow> 'n call list \<Rightarrow> nat" where
  "settle_count p cs = length (filter (settles p) cs)"

text \<open>
  \<open>confined k p s s'\<close>: going from \<open>s\<close> to \<open>s'\<close> touched nothing but the exchange
  with identifier \<open>k\<close> and promise \<open>p\<close>. Every other handler and every other
  \<^verbatim>\<open>fullResponse\<close> is as before, the calls made are calls for \<open>p\<close>, appended to
  those made before, and timers, sent messages and promises are unchanged.
\<close>

fun call_promise :: "'n call \<Rightarrow> nat" where
  "call_promise (Resolve p v) = p"
| "call_promise (Reject p m) = p"
| "call_promise (OnChunk p c) = p"

definition confined :: "string \<Rightarrow> nat \<Rightarrow> 'n client \<Rightarrow> 'n client \<Rightarrow> bool" where
  "confined k p s s' =
     ((\<forall>k'. k' \<noteq> k \<longrightarrow> messageHandlers s' k' = messageHandlers s k') \<and>
      (\<forall>q. q \<noteq> p \<longrightarrow> fullResponse s' q = fullResponse s q) \<and>
      take (length (calls s)) (calls s') = calls s \<and>
      list_all (\<lambda>c. call_promise c = p) (drop (length (calls s)) (calls s')) \<and>
      timers s' = timers s \<and> sent s' = sent s \<and> promises s' = promises s)"

text \<open>The identifiers generated along the run of \<open>evs\<close> from \<open>s\<close>.\<close>

fun issued :: "'n numops \<Rightarrow> 'n event list \<Rightarrow> 'n client \<Rightarrow> string list" where
  "issued N [] s = []"
| "issued N (e # es) s =
     (if generates e then [fst (generateUUID s)] else []) @
     (case step N e s of Inl x \<Rightarrow> [] | Inr s' \<Rightarrow> issued N es s')"

text \<open>
  The invariant of the engine. Every stored handler sits under the identifier it captured,
  belongs to a promise that exists and that nobody settled yet, no two stored handlers
  share a promise, a pending timer's identifier holds no handler but that of its own
  heartbeat, and no promise was settled twice.
\<close>

definition well_keyed :: "'n client \<Rightarrow> bool" where
  "well_keyed s = (\<forall>k h. messageHandlers s k = Some h \<longrightarrow> requestId_of h = k \<and> k \<noteq> [])"

definition live_unsettled :: "'n client \<Rightarrow> bool" where
  "live_unsettled s =
     (\<forall>k h. messageHandlers s k = Some h \<longrightarrow>
        promise_of h < promises s \<and> settle_count (promise_of h) (calls s) = 0)"

definition promises_distinct :: "'n client \<Rightarrow> bool" where
  "promises_distinct s =
     (\<forall>k k' h h'. messageHandlers s k = Some h \<longrightarrow> messageHandlers s k' = Some h' \<longrightarrow>
        promise_of h = promise_of h' \<longrightarrow> k = k')"

definition timers_owned :: "'n client \<Rightarrow> bool" where
  "timers_owned s =
     (\<forall>k p. (k, p) \<in> set (timers s) \<longrightarrow>
        p < promises s \<and> (\<forall>h. messageHandlers s k = Some h \<longrightarrow> h = PingHandler p k))"

definition settled_once :: "'n client \<Rightarrow> bool" where
  "settled_once s =
     (\<forall>p. settle_count p (calls s) \<le> 1 \<and> (promises s \<le> p \<longrightarrow> settle_count p (calls s) = 0))"

definition inv :: "'n client \<Rightarrow> bool" where
  "inv s = (well_keyed s \<and> live_unsettled s \<and> promises_distinct s \<and> timers_owned s \<and> settled_once s)"

section \<open>Concrete inputs\<close>

text \<open>Outcomes of \<^verbatim>\<open>Math.random()\<close> that run through 0/16, 1/16, ..., 15/16 again and again.\<close>

definition draws_cycle :: "nat \<Rightarrow> real" where
  "draws_cycle i = real (i mod 16) / 16"

text \<open>
  Numbers that are integers, printed in decimal as the runtime prints them; the frames of
  the examples hold no other numbers.
\<close>

definition dec_digit :: "nat \<Rightarrow> char" where
  "dec_digit d = ''0123456789'' ! d"

fun dec_nat :: "nat \<Rightarrow> string" where
  "dec_nat n = (if n < 10 then [dec_digit n] else dec_nat (n div 10) @ [dec_digit (n mod 10)])"

definition js_ints :: "int numops" where
  "js_ints =
     \<lparr>num_truthy = (\<lambda>n. n \<noteq> 0),
      num_string = (\<lambda>n. if n < 0 then CHR ''-'' # dec_nat (nat (- n)) else dec_nat (nat n))\<rparr>"

text \<open>The requests of the example program: a streaming one with an observer, a unary one.\<close>

definition streaming_options :: "int options" where
  "streaming_options =
     \<lparr>opt_model = Some (JStr ''gpt-3.5-turbo''),
      opt_messages = Some (JArr [JObj [(''role'', JStr ''user''),
                                       (''content'', JStr ''Write a haiku about WebSockets'')]]),
      opt_stream = Some (JBool True), opt_temperature = None, opt_maxTokens = None,
      opt_onChunk = True, additionalParams = Map.empty\<rparr>"

definition unary_options :: "int options" where
  "unary_options =
     \<lparr>opt_model = Some (JStr ''gpt-3.5-turbo''),
      opt_messages = Some (JArr [JObj [(''role'', JStr ''user''),
                                       (''content'', JStr ''What is 2+2?'')]]),
      opt_stream = Some (JBool False), opt_temperature = None, opt_maxTokens = None,
      opt_onChunk = False, additionalParams = Map.empty\<rparr>"

text \<open>The client right after the constructor, and the identifiers it will generate first.\<close>

definition client0 :: "int client" where
  "client0 = new_client draws_cycle"

definition id1 :: string where
  "id1 = ''01234567-89ab-4cde-b012-3456789abcde''"

definition id2 :: string where
  "id2 = ''f0123456-789a-4bcd-af01-23456789abcd''"

text \<open>The client after one streaming request, one unary request, one heartbeat.\<close>

definition streaming_client :: "int client" where
  "streaming_client = snd (sendChatCompletion js_ints streaming_options client0)"

definition unary_client :: "int client" where
  "unary_client = snd (sendChatCompletion js_ints unary_options client0)"

definition ping_client :: "int client" where
  "ping_client = snd (ping client0)"

text \<open>The client after a streaming request followed by a unary one.\<close>

definition two_client :: "int client" where
  "two_client = snd (sendChatCompletion js_ints unary_options streaming_client)"

section \<open>The identifier generator\<close>

lemma to_int32_draw:
  assumes "0 \<le> r" "r < 1"
  shows "\<exists>n<16. to_int32 (r * 16) = int n"
proof -
  have a: "0 \<le> \<lfloor>r * 16\<rfloor>" using assms by simp
  have "r * 16 < 16" using assms by simp
  then have b: "\<lfloor>r * 16\<rfloor> < 16" by (simp add: floor_less_iff)
  from a b have c: "nat \<lfloor>r * 16\<rfloor> < 16" by linarith
  from a b have "to_int32 (r * 16) = \<lfloor>r * 16\<rfloor>"
    using assms by (simp add: to_int32_def Let_def)
  with a have "to_int32 (r * 16) = int (nat \<lfloor>r * 16\<rfloor>)" by simp
  with c show ?thesis by blast
qed

lemma digit_cases: "d < 16 \<Longrightarrow> d \<in> {0,1,2,3,4,5,6,7,8,9,10,11,12,13,14,15::nat}"
  by simp arith

lemma is_hex_digit: "d < 16 \<Longrightarrow> is_hex (hex_digit d)"
  using digit_cases [of d] by (auto simp: is_hex_def hex_digit_def)

lemma toString16_digit: "d < 16 \<Longrightarrow> toString16 (int d) = [hex_digit d]"
  by (simp add: toString16_def)

lemma variant_bits:
  "d < 16 \<Longrightarrow> toString16 ((int d AND 3) OR 8) \<in> {''8'', ''9'', ''a'', ''b''}"
  using digit_cases [of d] by (auto simp: toString16_def hex_digit_def)

lemma uuid_digit_char:
  assumes "unit_draws s" "c = CHR ''x'' \<or> c = CHR ''y''"
  shows "\<exists>d. uuid_digit c s = ([d], s\<lparr>drawn := Suc (drawn s)\<rparr>) \<and> template_char c d"
proof -
  from assms(1) obtain n where n: "n < 16" "to_int32 (math_random s (drawn s) * 16) = int n"
    using to_int32_draw [of "math_random s (drawn s)"] by (auto simp: unit_draws_def)
  show ?thesis
  proof (cases "c = CHR ''x''")
    case True
    then show ?thesis using n
      by (simp add: uuid_digit_def Let_def toString16_digit is_hex_digit)
  next
    case False
    with assms(2) have y: "c = CHR ''y''" by simp
    from variant_bits [OF n(1)] show ?thesis unfolding y
      by (auto simp: uuid_digit_def Let_def n(2))
  qed
qed

lemma replace_xy_snd:
  "snd (replace_xy t s) =
     s\<lparr>drawn := drawn s + length (filter (\<lambda>c. c = CHR ''x'' \<or> c = CHR ''y'') t)\<rparr>"
  by (induction t arbitrary: s) (simp_all add: split_beta uuid_digit_def Let_def)

lemma generateUUID_snd: "snd (generateUUID s) = s\<lparr>drawn := drawn s + 31\<rparr>"
  by (simp add: generateUUID_def replace_xy_snd del: replace_xy.simps)

lemma replace_xy_chars:
  "unit_draws s \<Longrightarrow> list_all2 template_char t (fst (replace_xy t s))"
proof (induction t arbitrary: s)
  case Nil
  then show ?case by simp
next
  case (Cons c cs)
  show ?case
  proof (cases "c = CHR ''x'' \<or> c = CHR ''y''")
    case True
    from uuid_digit_char [OF Cons.prems True] obtain d where
      d: "uuid_digit c s = ([d], s\<lparr>drawn := Suc (drawn s)\<rparr>)" "template_char c d" by blast
    have u: "unit_draws (s\<lparr>drawn := Suc (drawn s)\<rparr>)"
      using Cons.prems by (simp add: unit_draws_def)
    from Cons.IH [OF u] d True show ?thesis
      by (simp add: split_beta del: template_char.simps)
  next
    case False
    with Cons.IH [OF Cons.prems] show ?thesis
      by (simp add: split_beta)
  qed
qed

lemma is_hex_4: "is_hex CHR ''4''"
  by (simp add: is_hex_def)

lemma variant_is_hex: "d \<in> set ''89ab'' \<Longrightarrow> is_hex d"
  by (auto simp: is_hex_def)

lemma template_layout:
  "list_all2 template_char ''xxxxxxxx-xxxx-4xxx-yxxx-xxxxxxxxxxxx'' u \<Longrightarrow> uuid_layout u"
  apply (clarsimp simp: list_all2_Cons1 simp del: set_simps)
  apply (simp add: uuid_layout_def is_hex_4 variant_is_hex del: set_simps)
  done

lemma replace_xy_hyphen: "CHR ''-'' \<in> set t \<Longrightarrow> fst (replace_xy t s) \<noteq> []"
  by (induction t arbitrary: s) (auto simp: split_beta)

lemma generateUUID_nonempty: "fst (generateUUID s) \<noteq> []"
  by (simp add: generateUUID_def replace_xy_hyphen del: replace_xy.simps)

text \<open>
  Claim C8. Whatever \<^verbatim>\<open>Math.random()\<close> returns within its contract (outcomes in
  \<open>[0, 1)\<close>), \<^verbatim>\<open>generateUUID\<close> returns a string in the standard layout: 36
  characters in hexadecimal groups of 8, 4, 4, 4 and 12 separated by hyphens, version
  digit 4, variant digit one of 8, 9, a, b. The function has no failing branch (it is a
  total function to strings: nothing in it can throw), and it consumes exactly 31 draws
  and changes nothing else of the client.
\<close>

theorem generateUUID_layout:
  assumes "\<forall>i. 0 \<le> math_random s i \<and> math_random s i < 1"
  shows "uuid_layout (fst (generateUUID s)) \<and> snd (generateUUID s) = s\<lparr>drawn := drawn s + 31\<rparr>"
proof -
  from assms have "unit_draws s" by (simp add: unit_draws_def)
  then have "list_all2 template_char ''xxxxxxxx-xxxx-4xxx-yxxx-xxxxxxxxxxxx'' (fst (generateUUID s))"
    unfolding generateUUID_def by (rule replace_xy_chars)
  then have "uuid_layout (fst (generateUUID s))" by (rule template_layout)
  then show ?thesis by (simp add: generateUUID_snd)
qed

lemma draws_cycle_int32: "to_int32 (draws_cycle i * 16) = int (i mod 16)"
  by (simp add: draws_cycle_def to_int32_def Let_def)

lemma draws_cycle_digit:
  "math_random s = draws_cycle \<Longrightarrow>
   uuid_digit c s =
     (toString16 (if c = CHR ''x'' then int (drawn s mod 16) else (int (drawn s mod 16) AND 3) OR 8),
      s\<lparr>drawn := Suc (drawn s)\<rparr>)"
  by (simp add: uuid_digit_def draws_cycle_int32 Let_def)

lemma draws_cycle_first:
  "math_random s = draws_cycle \<Longrightarrow> drawn s = 0 \<Longrightarrow>
   generateUUID s = (''01234567-89ab-4cde-b012-3456789abcde'', s\<lparr>drawn := 31\<rparr>)"
  by (simp add: generateUUID_def draws_cycle_digit toString16_def hex_digit_def)

lemma draws_cycle_second:
  "math_random s = draws_cycle \<Longrightarrow> drawn s = 31 \<Longrightarrow>
   generateUUID s = (''f0123456-789a-4bcd-af01-23456789abcd'', s\<lparr>drawn := 62\<rparr>)"
  by (simp add: generateUUID_def draws_cycle_digit toString16_def hex_digit_def)

theorem generateUUID_layout_witness:
  "(\<forall>i. 0 \<le> draws_cycle i \<and> draws_cycle i < 1) \<and>
   fst (generateUUID (new_client draws_cycle :: int client)) = ''01234567-89ab-4cde-b012-3456789abcde'' \<and>
   uuid_layout ''01234567-89ab-4cde-b012-3456789abcde'' \<and>
   drawn (snd (generateUUID (new_client draws_cycle :: int client))) = 31"
proof -
  have h: "\<forall>i. 0 \<le> math_random (new_client draws_cycle :: int client) i
             \<and> math_random (new_client draws_cycle :: int client) i < 1"
    by (simp add: new_client_def draws_cycle_def)
  have v: "generateUUID (new_client draws_cycle :: int client) =
             (''01234567-89ab-4cde-b012-3456789abcde'', (new_client draws_cycle)\<lparr>drawn := 31\<rparr>)"
    by (rule draws_cycle_first) (simp_all add: new_client_def)
  from generateUUID_layout [OF h] v h show ?thesis
    by (simp add: new_client_def)
qed

section \<open>Frames, requests and the invariant\<close>

lemma sendChatCompletion_eq:
  "sendChatCompletion N opts s =
     (promises s,
      s\<lparr>drawn := drawn s + 31,
        promises := Suc (promises s),
        fullResponse := (fullResponse s)(promises s := []),
        messageHandlers := (messageHandlers s)(fst (generateUUID s) \<mapsto>
           ChatHandler (promises s) (fst (generateUUID s))
             (truthy N (Some (with_default (opt_stream opts) (JBool True)))) (opt_onChunk opts)),
        sent := sent s @ [build_request opts (fst (generateUUID s))]\<rparr>)"
  by (simp add: sendChatCompletion_def split_beta Let_def generateUUID_snd)

lemma ping_eq:
  "ping s =
     (promises s,
      s\<lparr>drawn := drawn s + 31,
        promises := Suc (promises s),
        messageHandlers := (messageHandlers s)(fst (generateUUID s) \<mapsto>
           PingHandler (promises s) (fst (generateUUID s))),
        sent := sent s @ [[''type'' \<mapsto> JStr ''ping'', ''request_id'' \<mapsto> JStr (fst (generateUUID s))]],
        timers := timers s @ [(fst (generateUUID s), promises s)]\<rparr>)"
  by (simp add: ping_def split_beta Let_def generateUUID_snd)

lemma frame_type: "get_prop (frame type k kvs) ''type'' = Some (JStr type)"
  by (simp add: frame_def)

lemma frame_request_id: "get_prop (frame type k kvs) ''request_id'' = Some (JStr k)"
  by (simp add: frame_def)

lemma frame_data: "get_prop (frame type k kvs) ''data'' = map_of kvs ''data''"
  by (simp add: frame_def)

lemma frame_error: "get_prop (frame type k kvs) ''error'' = map_of kvs ''error''"
  by (simp add: frame_def)

lemma frame_not_null: "frame type k kvs \<noteq> JNull"
  by (simp add: frame_def)

lemmas frame_simps = frame_type frame_request_id frame_data frame_error frame_not_null

lemma handleMessage_frame:
  "k \<noteq> [] \<Longrightarrow> handleMessage N (frame type k kvs) s =
     (case messageHandlers s k of Some h \<Rightarrow> call_handler N h (frame type k kvs) s | None \<Rightarrow> Inr s)"
  by (simp add: handleMessage_def frame_simps)

lemma inv_new_client: "inv (new_client rnd)"
  by (simp add: inv_def well_keyed_def live_unsettled_def promises_distinct_def timers_owned_def
      settled_once_def new_client_def settle_count_def)

text \<open>A step that settles nothing and leaves handlers, timers and promises alone.\<close>

lemma inv_quiet:
  assumes "inv s" "messageHandlers s' = messageHandlers s" "set (timers s') \<subseteq> set (timers s)"
    "promises s' = promises s" "\<And>q. settle_count q (calls s') = settle_count q (calls s)"
  shows "inv s'"
  using assms
  unfolding inv_def well_keyed_def live_unsettled_def promises_distinct_def timers_owned_def
      settled_once_def subset_iff
  by simp blast

text \<open>A step that settles the promise of a live handler and removes the handler.\<close>

lemma inv_terminal:
  assumes i: "inv s" and h: "messageHandlers s k = Some h"
    and c: "settles (promise_of h) c" "\<And>q. q \<noteq> promise_of h \<Longrightarrow> \<not> settles q c"
    and s': "messageHandlers s' = (messageHandlers s)(k := None)" "calls s' = calls s @ [c]"
       "set (timers s') \<subseteq> set (timers s)" "promises s' = promises s"
  shows "inv s'"
proof -
  from i have wk: "well_keyed s" and lu: "live_unsettled s" and pd: "promises_distinct s"
    and tw: "timers_owned s" and so: "settled_once s" by (simp_all add: inv_def)
  have cnt: "settle_count q (calls s') = (if q = promise_of h then Suc (settle_count q (calls s)) else settle_count q (calls s))" for q
    using c by (auto simp: s' settle_count_def)
  have z: "settle_count (promise_of h) (calls s) = 0" "promise_of h < promises s"
    using lu h by (auto simp: live_unsettled_def)
  have 1: "well_keyed s'" using wk by (auto simp: well_keyed_def s' split: if_splits)
  have 2: "live_unsettled s'"
    unfolding live_unsettled_def
  proof (intro allI impI)
    fix k' h' assume a: "messageHandlers s' k' = Some h'"
    then have k': "k' \<noteq> k" "messageHandlers s k' = Some h'" by (auto simp: s' split: if_splits)
    with pd h have "promise_of h' \<noteq> promise_of h" by (auto simp: promises_distinct_def)
    with lu k' show "promise_of h' < promises s' \<and> settle_count (promise_of h') (calls s') = 0"
      by (auto simp: live_unsettled_def cnt s'(4))
  qed
  have 3: "promises_distinct s'" using pd
    unfolding promises_distinct_def s' by (auto split: if_splits)
  have 4: "timers_owned s'" using tw s'(3)
    unfolding timers_owned_def s'(1,4) by (auto split: if_splits)
  have 5: "settled_once s'" using so z
    unfolding settled_once_def cnt s'(4) by auto
  from 1 2 3 4 5 show ?thesis by (simp add: inv_def)
qed


text \<open>A step that stores a new handler under an unused identifier, for a new promise.\<close>

lemma inv_create:
  assumes i: "inv s" and u: "id_unused k s" "k \<noteq> []"
    and h: "requestId_of h = k" "promise_of h = promises s"
    and s': "messageHandlers s' = (messageHandlers s)(k \<mapsto> h)" "calls s' = calls s"
       "promises s' = Suc (promises s)"
    and t: "timers s' = timers s \<or> (timers s' = timers s @ [(k, promises s)] \<and> h = PingHandler (promises s) k)"
  shows "inv s'"
proof -
  from i have wk: "well_keyed s" and lu: "live_unsettled s" and pd: "promises_distinct s"
    and tw: "timers_owned s" and so: "settled_once s" by (simp_all add: inv_def)
  from u have un: "messageHandlers s k = None" "\<And>p. (k, p) \<notin> set (timers s)"
    by (auto simp: id_unused_def image_iff)
  have 1: "well_keyed s'" using wk u(2) h(1) by (auto simp: well_keyed_def s')
  have 2: "live_unsettled s'" using lu so h(2)
    by (auto simp: live_unsettled_def settled_once_def s' less_Suc_eq)
  have 3: "promises_distinct s'"
    unfolding promises_distinct_def
  proof (intro allI impI)
    fix a b ha hb
    assume a: "messageHandlers s' a = Some ha" and b: "messageHandlers s' b = Some hb"
      and e: "promise_of ha = promise_of hb"
    have old: "messageHandlers s x = Some y \<Longrightarrow> promise_of y < promises s" for x y
      using lu by (auto simp: live_unsettled_def)
    show "a = b"
    proof (cases "a = k"; cases "b = k")
      assume "a \<noteq> k" "b \<noteq> k"
      with a b e pd show ?thesis by (auto simp: s' promises_distinct_def)
    next
      assume "a = k" "b \<noteq> k"
      with a b e h(2) old [of b hb] show ?thesis by (auto simp: s')
    next
      assume "a \<noteq> k" "b = k"
      with a b e h(2) old [of a ha] show ?thesis by (auto simp: s')
    qed simp
  qed
  have 4: "timers_owned s'"
    unfolding timers_owned_def
  proof (intro allI impI)
    fix a p assume m: "(a, p) \<in> set (timers s')"
    show "p < promises s' \<and> (\<forall>h'. messageHandlers s' a = Some h' \<longrightarrow> h' = PingHandler p a)"
    proof (cases "(a, p) \<in> set (timers s)")
      case True
      with un(2) have "a \<noteq> k" by auto
      with True tw show ?thesis by (auto simp: timers_owned_def s' less_Suc_eq)
    next
      case False
      with m t have "a = k" "p = promises s" "h = PingHandler (promises s) k" by auto
      then show ?thesis by (simp add: s')
    qed
  qed
  have 5: "settled_once s'" using so by (auto simp: settled_once_def s')
  from 1 2 3 4 5 show ?thesis by (simp add: inv_def)
qed

lemma call_handler_effect:
  assumes "call_handler N h data s = Inr s'"
  shows "(messageHandlers s' = messageHandlers s \<and> timers s' = timers s \<and> promises s' = promises s
            \<and> (\<forall>q. settle_count q (calls s') = settle_count q (calls s)))
       \<or> (\<exists>c. settles (promise_of h) c \<and> (\<forall>q. q \<noteq> promise_of h \<longrightarrow> \<not> settles q c)
            \<and> messageHandlers s' = (messageHandlers s)(requestId_of h := None)
            \<and> calls s' = calls s @ [c] \<and> timers s' = timers s \<and> promises s' = promises s)"
proof (cases h)
  case (ChatHandler p k st oc)
  with assms show ?thesis
    by (auto simp: chat_handler_def Let_def settle_count_def
        split: if_splits option.splits sum.splits)
next
  case (PingHandler p k)
  with assms show ?thesis
    by (auto simp: ping_handler_def split: if_splits)
qed

lemma handler_at_Some:
  assumes "handler_at s v = Some h"
  shows "\<exists>k. v = Some (JStr k) \<and> messageHandlers s k = Some h"
proof (cases v)
  case None
  with assms show ?thesis by simp
next
  case (Some x)
  with assms show ?thesis by (cases x) simp_all
qed

lemma handleMessage_cases:
  assumes "handleMessage N data s = Inr s'"
  shows "s' = s \<or> (\<exists>k h. messageHandlers s k = Some h \<and> call_handler N h data s = Inr s')"
proof (cases "handler_at s (get_prop data ''request_id'')")
  case None
  with assms have "s' = s" by (simp add: handleMessage_def Let_def split: if_splits)
  then show ?thesis ..
next
  case (Some h)
  from handler_at_Some [OF Some] obtain k where k: "messageHandlers s k = Some h" by blast
  from assms Some have "s' = s \<or> call_handler N h data s = Inr s'"
    by (simp add: handleMessage_def Let_def split: if_splits)
  with k show ?thesis by blast
qed

lemma inv_handleMessage:
  assumes "inv s" "handleMessage N data s = Inr s'"
  shows "inv s'"
proof -
  from handleMessage_cases [OF assms(2)] show ?thesis
  proof
    assume "s' = s" with assms(1) show ?thesis by simp
  next
    assume "\<exists>k h. messageHandlers s k = Some h \<and> call_handler N h data s = Inr s'"
    then obtain k h where kh: "messageHandlers s k = Some h" "call_handler N h data s = Inr s'"
      by blast
    from assms(1) kh(1) have rk: "requestId_of h = k" by (auto simp: inv_def well_keyed_def)
    from call_handler_effect [OF kh(2)] show ?thesis
    proof (elim disjE exE conjE)
      assume "messageHandlers s' = messageHandlers s" "timers s' = timers s"
        "promises s' = promises s" "\<forall>q. settle_count q (calls s') = settle_count q (calls s)"
      with assms(1) show ?thesis by (intro inv_quiet [of s s']) simp_all
    next
      fix c assume "settles (promise_of h) c" "\<forall>q. q \<noteq> promise_of h \<longrightarrow> \<not> settles q c"
        "messageHandlers s' = (messageHandlers s)(requestId_of h := None)"
        "calls s' = calls s @ [c]" "timers s' = timers s" "promises s' = promises s"
      with assms(1) kh(1) rk show ?thesis by (intro inv_terminal [of s k h c s']) simp_all
    qed
  qed
qed


lemma inv_fire_timer:
  assumes "inv s"
  shows "inv (fire_timer s)"
proof (cases "timers s")
  case Nil
  with assms show ?thesis by (simp add: fire_timer_def)
next
  case (Cons kp ts)
  obtain k p where kp: "kp = (k, p)" by (cases kp)
  have sub: "set ts \<subseteq> set (timers s)" by (auto simp: Cons)
  show ?thesis
  proof (cases "messageHandlers s k")
    case None
    with Cons kp have f: "fire_timer s = s\<lparr>timers := ts\<rparr>"
      by (simp add: fire_timer_def ping_timeout_def)
    have "inv (s\<lparr>timers := ts\<rparr>)"
      by (rule inv_quiet [OF assms]) (simp_all add: sub)
    then show ?thesis by (simp only: f)
  next
    case (Some h)
    from assms Cons kp Some have h: "h = PingHandler p k"
      by (simp add: inv_def timers_owned_def)
    from Some Cons kp have f: "fire_timer s =
        s\<lparr>timers := ts, messageHandlers := (messageHandlers s)(k := None),
          calls := calls s @ [Reject p ''Ping timeout'']\<rparr>"
      by (simp add: fire_timer_def ping_timeout_def)
    have "inv (s\<lparr>timers := ts, messageHandlers := (messageHandlers s)(k := None),
          calls := calls s @ [Reject p ''Ping timeout'']\<rparr>)"
      by (rule inv_terminal [OF assms Some, where c = "Reject p ''Ping timeout''"])
         (simp_all add: h sub)
    then show ?thesis by (simp only: f)
  qed
qed

lemma inv_sendChatCompletion:
  assumes "inv s" "id_unused (fst (generateUUID s)) s"
  shows "inv (snd (sendChatCompletion N opts s))"
  by (rule inv_create [OF assms generateUUID_nonempty, where
        h = "ChatHandler (promises s) (fst (generateUUID s))
             (truthy N (Some (with_default (opt_stream opts) (JBool True)))) (opt_onChunk opts)"])
     (simp_all add: sendChatCompletion_eq)

lemma inv_ping:
  assumes "inv s" "id_unused (fst (generateUUID s)) s"
  shows "inv (snd (ping s))"
  by (rule inv_create [OF assms generateUUID_nonempty, where
        h = "PingHandler (promises s) (fst (generateUUID s))"])
     (simp_all add: ping_eq)

lemma inv_step:
  assumes "inv s" "step N e s = Inr s'" "generates e \<longrightarrow> id_unused (fst (generateUUID s)) s"
  shows "inv s'"
proof (cases e)
  case (Send opts)
  with assms show ?thesis using inv_sendChatCompletion [of s N opts] by auto
next
  case Ping
  with assms show ?thesis using inv_ping [of s] by auto
next
  case (Message data)
  with assms show ?thesis using inv_handleMessage [of s N data s'] by simp
next
  case TimerFires
  with assms show ?thesis using inv_fire_timer [of s] by auto
qed

lemma inv_run:
  "inv s \<Longrightarrow> run N evs s = Inr s' \<Longrightarrow> unique_ids N evs s \<Longrightarrow> inv s'"
proof (induction evs arbitrary: s)
  case Nil
  then show ?case by simp
next
  case (Cons e es)
  from Cons.prems(2) obtain s1 where s1: "step N e s = Inr s1" "run N es s1 = Inr s'"
    by (auto split: sum.splits)
  from Cons.prems(3) s1(1) have u: "generates e \<longrightarrow> id_unused (fst (generateUUID s)) s"
    "unique_ids N es s1" by auto
  from inv_step [OF Cons.prems(1) s1(1) u(1)] have "inv s1" .
  from Cons.IH [OF this s1(2) u(2)] show ?case .
qed

section \<open>The concrete clients\<close>

lemma client0_fields:
  "math_random client0 = draws_cycle" "drawn client0 = 0" "promises client0 = 0"
  "calls client0 = []" "timers client0 = []" "messageHandlers client0 = Map.empty"
  "fullResponse client0 = (\<lambda>p. [])" "sent client0 = []"
  by (simp_all add: client0_def new_client_def)

lemma client0_uuid: "fst (generateUUID client0) = id1"
  using draws_cycle_first [of client0] by (simp add: client0_fields id1_def)

lemma second_uuid: "math_random s = draws_cycle \<Longrightarrow> drawn s = 31 \<Longrightarrow> fst (generateUUID s) = id2"
  using draws_cycle_second [of s] by (simp add: id2_def)

lemma id1_nonempty: "id1 \<noteq> []" by (simp add: id1_def)
lemma id2_nonempty: "id2 \<noteq> []" by (simp add: id2_def)
lemma id1_id2: "id1 \<noteq> id2" "id2 \<noteq> id1" by (simp_all add: id1_def id2_def)

section \<open>Streaming, unary completion and errors\<close>

text \<open>
  Claim C1. A streaming request is issued on any client (\<^verbatim>\<open>stream = true\<close>), and
  the frames \<^verbatim>\<open>stream_chunk("A")\<close>, \<^verbatim>\<open>stream_chunk("B")\<close>,
  \<^verbatim>\<open>stream_complete\<close> bearing its identifier arrive in this order. Then no
  exception is raised, the calls made are, in order, \<^verbatim>\<open>onChunk("A")\<close> and
  \<^verbatim>\<open>onChunk("B")\<close> when an observer was supplied (none otherwise), and then
  \<^verbatim>\<open>resolve("AB")\<close> of the request's promise; the handler is removed.
\<close>

theorem streaming_accumulation:
  fixes s :: "'n client" and N :: "'n numops" and opts :: "'n options"
  defines "k \<equiv> fst (generateUUID s)"
  defines "p \<equiv> fst (sendChatCompletion N (opts\<lparr>opt_stream := Some (JBool True)\<rparr>) s)"
  defines "s1 \<equiv> snd (sendChatCompletion N (opts\<lparr>opt_stream := Some (JBool True)\<rparr>) s)"
  shows "run N [Message (stream_chunk k ''A''), Message (stream_chunk k ''B''),
                Message (stream_complete k)] s1 =
           Inr (s1\<lparr>fullResponse := (fullResponse s1)(p := ''AB''),
                   calls := calls s1 @
                      (if opt_onChunk opts then [OnChunk p (JStr ''A''), OnChunk p (JStr ''B'')] else []) @
                      [Resolve p (Some (JStr ''AB''))],
                   messageHandlers := (messageHandlers s1)(k := None)\<rparr>)
         \<and> calls s1 = calls s"
  unfolding k_def p_def s1_def
  using generateUUID_nonempty [of s]
  by (simp add: sendChatCompletion_eq stream_chunk_def stream_complete_def handleMessage_frame
      chat_handler_def frame_simps delta_payload_def choice_content_def)

theorem streaming_accumulation_witness:
  "map_sum id calls
     (run js_ints [Message (stream_chunk id1 ''A''), Message (stream_chunk id1 ''B''),
                   Message (stream_complete id1)]
        streaming_client) =
   Inr [OnChunk 0 (JStr ''A''), OnChunk 0 (JStr ''B''), Resolve 0 (Some (JStr ''AB''))]"
proof -
  have o: "streaming_options\<lparr>opt_stream := Some (JBool True)\<rparr> = streaming_options"
    "opt_onChunk streaming_options"
    by (simp_all add: streaming_options_def)
  have p: "fst (sendChatCompletion js_ints streaming_options client0) = 0"
    by (simp add: sendChatCompletion_eq client0_fields)
  from streaming_accumulation [where s = client0 and N = js_ints and opts = streaming_options] show ?thesis
    by (simp add: o p client0_uuid client0_fields streaming_client_def)
qed


lemma streaming_client_fields:
  "messageHandlers streaming_client = [id1 \<mapsto> ChatHandler 0 id1 True True]"
  "calls streaming_client = []" "timers streaming_client = []"
  by (simp_all add: streaming_client_def sendChatCompletion_eq client0_fields client0_uuid
      streaming_options_def)

lemma unary_client_fields:
  "messageHandlers unary_client = [id1 \<mapsto> ChatHandler 0 id1 False False]"
  "calls unary_client = []" "timers unary_client = []"
  by (simp_all add: unary_client_def sendChatCompletion_eq client0_fields client0_uuid
      unary_options_def)

lemma ping_client_fields:
  "messageHandlers ping_client = [id1 \<mapsto> PingHandler 0 id1]"
  "calls ping_client = []" "timers ping_client = [(id1, 0)]"
  by (simp_all add: ping_client_def ping_eq client0_fields client0_uuid)

lemma choice_content_truthy:
  assumes "truthy N (choice_content v f)"
  shows "truthy N (get_prop v ''choices'')"
proof (cases "get_prop v ''choices''")
  case None
  with assms show ?thesis by (simp add: choice_content_def)
next
  case (Some c)
  with assms show ?thesis by (cases c) (auto simp: choice_content_def split: list.splits)
qed

text \<open>
  Claim C9. A frame of the other mode addressed to a live chat exchange is ignored: a
  \<^verbatim>\<open>completion\<close> frame for a streaming exchange, a \<^verbatim>\<open>stream_chunk\<close> or
  \<^verbatim>\<open>stream_complete\<close> frame for a unary one, whatever else the frame holds. The
  client is exactly as before: no call was made, the promise is not settled, the handler
  is still stored.
\<close>

theorem mode_mismatch_ignored:
  assumes "messageHandlers s k = Some (ChatHandler p k' stream oc)"
    and "data \<noteq> JNull" "get_prop data ''request_id'' = Some (JStr k)"
    and "get_prop data ''type'' = Some (JStr type)"
    and "(stream \<and> type = ''completion'') \<or>
         (\<not> stream \<and> (type = ''stream_chunk'' \<or> type = ''stream_complete''))"
  shows "handleMessage N data s = Inr s"
  using assms by (auto simp: handleMessage_def chat_handler_def)

theorem mode_mismatch_ignored_witness:
  "handleMessage js_ints (completion id1 (message_payload (JStr ''4''))) streaming_client
     = Inr streaming_client \<and>
   handleMessage js_ints (stream_chunk id1 ''A'') unary_client = Inr unary_client \<and>
   handleMessage js_ints (stream_complete id1) unary_client = Inr unary_client \<and>
   messageHandlers streaming_client id1 = Some (ChatHandler 0 id1 True True) \<and>
   messageHandlers unary_client id1 = Some (ChatHandler 0 id1 False False)"
proof -
  have a: "handleMessage js_ints (completion id1 (message_payload (JStr ''4''))) streaming_client
     = Inr streaming_client"
    by (rule mode_mismatch_ignored [where k = id1 and type = "''completion''" and p = 0
          and k' = id1 and stream = True and oc = True])
       (simp_all add: streaming_client_fields completion_def frame_simps)
  have b: "handleMessage js_ints (stream_chunk id1 ''A'') unary_client = Inr unary_client"
    by (rule mode_mismatch_ignored [where k = id1 and type = "''stream_chunk''" and p = 0
          and k' = id1 and stream = False and oc = False])
       (simp_all add: unary_client_fields stream_chunk_def frame_simps)
  have c: "handleMessage js_ints (stream_complete id1) unary_client = Inr unary_client"
    by (rule mode_mismatch_ignored [where k = id1 and type = "''stream_complete''" and p = 0
          and k' = id1 and stream = False and oc = False])
       (simp_all add: unary_client_fields stream_complete_def frame_simps)
  from a b c show ?thesis
    by (simp add: streaming_client_fields unary_client_fields)
qed

text \<open>
  Claim C10. For a unary exchange, a \<^verbatim>\<open>completion\<close> frame whose
  \<^verbatim>\<open>data.choices[0].message.content\<close> is present and is the empty string resolves
  the promise with the raw payload (which is not the empty string), and removes the
  handler: the presence of the content is tested by truthiness.
\<close>

theorem empty_content_resolves_payload:
  assumes "messageHandlers s k = Some (ChatHandler p k' False oc)" "k \<noteq> []"
    and "data \<noteq> JNull" "get_prop data ''request_id'' = Some (JStr k)"
    and "get_prop data ''type'' = Some (JStr ''completion'')"
    and "get_prop data ''data'' = Some payload"
    and "choice_content payload ''message'' = Some (JStr [])"
  shows "handleMessage N data s =
           Inr (s\<lparr>calls := calls s @ [Resolve p (Some payload)],
                  messageHandlers := (messageHandlers s)(k' := None)\<rparr>)
         \<and> payload \<noteq> JStr []"
proof -
  from assms(7) have n: "payload \<noteq> JNull" "payload \<noteq> JStr []"
    by (auto simp: choice_content_def)
  from assms n show ?thesis
    by (simp add: handleMessage_def chat_handler_def)
qed

theorem empty_content_resolves_payload_witness:
  "handleMessage js_ints
      (completion id1 (JObj [(''id'', JStr ''cmpl-1''),
          (''choices'', JArr [JObj [(''message'', JObj [(''role'', JStr ''assistant''), (''content'', JStr [])])]])]))
      unary_client =
   Inr (unary_client\<lparr>calls := [Resolve 0 (Some (JObj [(''id'', JStr ''cmpl-1''),
          (''choices'', JArr [JObj [(''message'', JObj [(''role'', JStr ''assistant''), (''content'', JStr [])])]])]))],
        messageHandlers := Map.empty\<rparr>)"
proof -
  let ?payload = "JObj [(''id'', JStr ''cmpl-1''),
          (''choices'', JArr [JObj [(''message'', JObj [(''role'', JStr ''assistant''), (''content'', JStr [])])]])] :: int json"
  have "handleMessage js_ints (completion id1 ?payload) unary_client =
           Inr (unary_client\<lparr>calls := calls unary_client @ [Resolve 0 (Some ?payload)],
                  messageHandlers := (messageHandlers unary_client)(id1 := None)\<rparr>)
         \<and> ?payload \<noteq> JStr []"
    by (rule empty_content_resolves_payload [where k = id1 and k' = id1 and p = 0 and oc = False])
       (simp_all add: unary_client_fields completion_def frame_simps id1_nonempty choice_content_def)
  then show ?thesis by (simp add: unary_client_fields)
qed


text \<open>
  Against claim C5 as stated: the payload holds a message content, the empty string, and
  the promise is resolved with the payload, not with that content.
\<close>

theorem unary_completion_counterexample:
  "choice_content (message_payload (JStr [])) ''message'' = Some (JStr [] :: int json) \<and>
   handleMessage js_ints (completion id1 (message_payload (JStr []))) unary_client =
     Inr (unary_client\<lparr>calls := [Resolve 0 (Some (message_payload (JStr [])))],
                       messageHandlers := Map.empty\<rparr>) \<and>
   Some (message_payload (JStr [])) \<noteq> Some (JStr [] :: int json)"
  by (simp add: handleMessage_frame completion_def id1_nonempty unary_client_fields
      chat_handler_def frame_simps message_payload_def choice_content_def)

text \<open>
  Claim C5, amended. For a unary exchange, a \<^verbatim>\<open>completion\<close> frame bearing its
  identifier, with a payload that is present and not null, is the terminal success: the
  promise is resolved with \<^verbatim>\<open>data.choices[0].message.content\<close> when that value is
  truthy (a non-empty string such as \<^verbatim>\<open>"4"\<close>), and with the raw payload
  otherwise; the handler is removed in the same step.
\<close>

theorem unary_completion:
  assumes "messageHandlers s k = Some (ChatHandler p k' False oc)" "k \<noteq> []"
    and "data \<noteq> JNull" "get_prop data ''request_id'' = Some (JStr k)"
    and "get_prop data ''type'' = Some (JStr ''completion'')"
    and "get_prop data ''data'' = Some payload" "payload \<noteq> JNull"
  shows "handleMessage N data s =
           Inr (s\<lparr>calls := calls s @
                    [Resolve p (if truthy N (choice_content payload ''message'')
                                then choice_content payload ''message'' else Some payload)],
                  messageHandlers := (messageHandlers s)(k' := None)\<rparr>)"
  using assms choice_content_truthy [of N payload "''message''"]
  by (auto simp: handleMessage_def chat_handler_def)

theorem unary_completion_witness:
  "handleMessage js_ints (completion id1 (message_payload (JStr ''4''))) unary_client =
     Inr (unary_client\<lparr>calls := [Resolve 0 (Some (JStr ''4''))], messageHandlers := Map.empty\<rparr>) \<and>
   handleMessage js_ints (completion id1 (JObj [(''status'', JStr ''ok'')])) unary_client =
     Inr (unary_client\<lparr>calls := [Resolve 0 (Some (JObj [(''status'', JStr ''ok'')]))],
                       messageHandlers := Map.empty\<rparr>)"
proof -
  have a: "handleMessage js_ints (completion id1 (message_payload (JStr ''4''))) unary_client =
     Inr (unary_client\<lparr>calls := calls unary_client @
            [Resolve 0 (if truthy js_ints (choice_content (message_payload (JStr ''4'')) ''message'')
                        then choice_content (message_payload (JStr ''4'')) ''message''
                        else Some (message_payload (JStr ''4'')))],
          messageHandlers := (messageHandlers unary_client)(id1 := None)\<rparr>)"
    by (rule unary_completion [where k = id1 and k' = id1 and p = 0 and oc = False])
       (simp_all add: unary_client_fields completion_def frame_simps id1_nonempty message_payload_def)
  have b: "handleMessage js_ints (completion id1 (JObj [(''status'', JStr ''ok'')])) unary_client =
     Inr (unary_client\<lparr>calls := calls unary_client @
            [Resolve 0 (if truthy js_ints (choice_content (JObj [(''status'', JStr ''ok'')]) ''message'')
                        then choice_content (JObj [(''status'', JStr ''ok'')]) ''message''
                        else Some (JObj [(''status'', JStr ''ok'')]))],
          messageHandlers := (messageHandlers unary_client)(id1 := None)\<rparr>)"
    by (rule unary_completion [where k = id1 and k' = id1 and p = 0 and oc = False])
       (simp_all add: unary_client_fields completion_def frame_simps id1_nonempty)
  from a b show ?thesis
    by (simp add: unary_client_fields message_payload_def choice_content_def)
qed

text \<open>
  Against claim C3 as stated: an \<^verbatim>\<open>error\<close> frame bearing the identifier of a live
  heartbeat changes nothing; the heartbeat's handler stays and no call is made.
\<close>

theorem error_frame_heartbeat_counterexample:
  "handleMessage js_ints (error_frame id1 ''boom'') ping_client = Inr ping_client \<and>
   messageHandlers ping_client id1 = Some (PingHandler 0 id1) \<and>
   calls ping_client = []"
  by (simp add: handleMessage_frame error_frame_def id1_nonempty ping_client_fields
      ping_handler_def frame_simps)

text \<open>
  Claim C3, amended. Take an \<^verbatim>\<open>error\<close> frame bearing the identifier of a live
  exchange. For a chat exchange, streaming or unary, whenever the carried \<^verbatim>\<open>error\<close>
  has a string \<open>m\<close> (a string is its own, as the wire format has it; an absent
  \<^verbatim>\<open>error\<close> gives the empty message), the frame is the terminal failure: the
  promise is rejected with an \<^verbatim>\<open>Error\<close> whose message is \<open>m\<close>, and the handler is
  removed. The handler of a heartbeat answers \<^verbatim>\<open>pong\<close> only: an \<^verbatim>\<open>error\<close>
  frame leaves the heartbeat as it is.
\<close>

theorem error_frame_terminal:
  assumes "messageHandlers s k = Some h" "k \<noteq> []"
    and "data \<noteq> JNull" "get_prop data ''request_id'' = Some (JStr k)"
    and "get_prop data ''type'' = Some (JStr ''error'')"
  shows "(case h of
            ChatHandler p k' stream oc \<Rightarrow>
              (\<forall>m. js_Error N (get_prop data ''error'') = Inr m \<longrightarrow>
                 handleMessage N data s =
                   Inr (s\<lparr>calls := calls s @ [Reject p m],
                          messageHandlers := (messageHandlers s)(k' := None)\<rparr>))
          | PingHandler p k' \<Rightarrow> handleMessage N data s = Inr s) \<and>
         (\<forall>m. get_prop data ''error'' = Some (JStr m) \<longrightarrow>
            js_Error N (get_prop data ''error'') = Inr m) \<and>
         (get_prop data ''error'' = None \<longrightarrow> js_Error N (get_prop data ''error'') = Inr [])"
  using assms by (cases h) (simp_all add: handleMessage_def chat_handler_def ping_handler_def)

theorem error_frame_terminal_witness:
  "handleMessage js_ints (error_frame id1 ''boom'') streaming_client =
     Inr (streaming_client\<lparr>calls := [Reject 0 ''boom''], messageHandlers := Map.empty\<rparr>) \<and>
   handleMessage js_ints (error_frame id1 ''boom'') unary_client =
     Inr (unary_client\<lparr>calls := [Reject 0 ''boom''], messageHandlers := Map.empty\<rparr>)"
proof -
  have f: "error_frame id1 ''boom'' \<noteq> (JNull :: int json)"
    "get_prop (error_frame id1 ''boom'' :: int json) ''request_id'' = Some (JStr id1)"
    "get_prop (error_frame id1 ''boom'' :: int json) ''type'' = Some (JStr ''error'')"
    "get_prop (error_frame id1 ''boom'' :: int json) ''error'' = Some (JStr ''boom'')"
    by (simp_all add: error_frame_def frame_simps)
  have hs: "messageHandlers streaming_client id1 = Some (ChatHandler 0 id1 True True)"
    and hu: "messageHandlers unary_client id1 = Some (ChatHandler 0 id1 False False)"
    by (simp_all add: streaming_client_fields unary_client_fields)
  note ts = error_frame_terminal [where N = js_ints, OF hs id1_nonempty f(1,2,3)]
  note tu = error_frame_terminal [where N = js_ints, OF hu id1_nonempty f(1,2,3)]
  from ts [THEN conjunct2, THEN conjunct1, rule_format, OF f(4)]
  have m: "js_Error js_ints (get_prop (error_frame id1 ''boom'' :: int json) ''error'') = Inr ''boom''" .
  from ts [THEN conjunct1] m
  have a: "handleMessage js_ints (error_frame id1 ''boom'') streaming_client =
     Inr (streaming_client\<lparr>calls := calls streaming_client @ [Reject 0 ''boom''],
            messageHandlers := (messageHandlers streaming_client)(id1 := None)\<rparr>)"
    by simp
  from tu [THEN conjunct1] m
  have b: "handleMessage js_ints (error_frame id1 ''boom'') unary_client =
     Inr (unary_client\<lparr>calls := calls unary_client @ [Reject 0 ''boom''],
            messageHandlers := (messageHandlers unary_client)(id1 := None)\<rparr>)"
    by simp
  from a b show ?thesis
    by (simp add: streaming_client_fields unary_client_fields)
qed

text \<open>
  Where the carried \<^verbatim>\<open>error\<close> has no string, \<^verbatim>\<open>new Error\<close> throws and the
  exchange is not touched: it stays live. The same happens to a chunk whose content has
  no string.
\<close>

lemma error_frame_without_string:
  "handleMessage js_ints (frame ''error'' id1 [(''error'', JObj [(''toString'', JNum 1)])])
     streaming_client = Inl TypeError"
  by (simp add: handleMessage_frame id1_nonempty streaming_client_fields chat_handler_def
      frame_simps)

lemma chunk_without_string:
  "handleMessage js_ints
     (frame ''stream_chunk'' id1 [(''data'', delta_payload (JArr [JNum 1, JObj [(''toString'', JNull)]]))])
     streaming_client = Inl TypeError"
  by (simp add: handleMessage_frame id1_nonempty streaming_client_fields chat_handler_def
      frame_simps delta_payload_def choice_content_def)

text \<open>
  Against claim C7 as stated: after the matching \<^verbatim>\<open>pong\<close> resolved a heartbeat,
  its timer is still pending.
\<close>

theorem pong_leaves_timer_counterexample:
  "handleMessage js_ints (pong id1) ping_client =
     Inr (ping_client\<lparr>calls := [Resolve 0 None], messageHandlers := Map.empty\<rparr>) \<and>
   timers (ping_client\<lparr>calls := [Resolve 0 None], messageHandlers := Map.empty\<rparr>) = [(id1, 0)]"
  by (simp add: handleMessage_frame pong_def id1_nonempty ping_client_fields
      ping_handler_def frame_simps)

text \<open>
  Claim C7, amended. No terminal transition cancels a timer, in any state of the client.
  A chat request arms none: \<^verbatim>\<open>sendChatCompletion\<close> leaves the pending timers as
  they are. No frame cancels one: whenever \<^verbatim>\<open>handleMessage\<close> returns, the pending
  timers are as before. In particular the \<^verbatim>\<open>pong\<close> matching a live heartbeat
  resolves its promise and removes its handler, and changes nothing else, so the
  heartbeat's timer stays pending. When a timer fires and finds no handler under its
  identifier, it only leaves the queue: no call is made and the handler map is unchanged.
\<close>

theorem timers_never_cancelled:
  fixes s :: "'n client"
  shows
  "timers (snd (sendChatCompletion N opts s)) = timers s \<and>
   (\<forall>data s'. handleMessage N data s = Inr s' \<longrightarrow> timers s' = timers s) \<and>
   (\<forall>k p k' data.
      messageHandlers s k = Some (PingHandler p k') \<and> k \<noteq> [] \<and> data \<noteq> JNull \<and>
      get_prop data ''request_id'' = Some (JStr k) \<and>
      get_prop data ''type'' = Some (JStr ''pong'') \<longrightarrow>
      handleMessage N data s =
        Inr (s\<lparr>calls := calls s @ [Resolve p None],
               messageHandlers := (messageHandlers s)(k' := None)\<rparr>)) \<and>
   (\<forall>k p ts. timers s = (k, p) # ts \<and> messageHandlers s k = None \<longrightarrow>
      fire_timer s = s\<lparr>timers := ts\<rparr>)"
proof (intro conjI allI impI)
  show "timers (snd (sendChatCompletion N opts s)) = timers s"
    by (simp add: sendChatCompletion_eq)
next
  fix data :: "'n json" and s'
  assume m: "handleMessage N data s = Inr s'"
  from handleMessage_cases [OF m] show "timers s' = timers s"
  proof
    assume "s' = s" then show ?thesis by simp
  next
    assume "\<exists>k h. messageHandlers s k = Some h \<and> call_handler N h data s = Inr s'"
    then obtain h where "call_handler N h data s = Inr s'" by blast
    from call_handler_effect [OF this] show ?thesis by blast
  qed
next
  fix k p k' and data :: "'n json"
  assume "messageHandlers s k = Some (PingHandler p k') \<and> k \<noteq> [] \<and> data \<noteq> JNull \<and>
      get_prop data ''request_id'' = Some (JStr k) \<and>
      get_prop data ''type'' = Some (JStr ''pong'')"
  then show "handleMessage N data s =
        Inr (s\<lparr>calls := calls s @ [Resolve p None],
               messageHandlers := (messageHandlers s)(k' := None)\<rparr>)"
    by (simp add: handleMessage_def ping_handler_def)
next
  fix k p ts
  assume "timers s = (k, p) # ts \<and> messageHandlers s k = None"
  then show "fire_timer s = s\<lparr>timers := ts\<rparr>"
    by (simp add: fire_timer_def ping_timeout_def)
qed

theorem timers_never_cancelled_witness:
  "timers (snd (sendChatCompletion js_ints unary_options ping_client)) = [(id1, 0)] \<and>
   handleMessage js_ints (pong id1) ping_client =
     Inr (ping_client\<lparr>calls := [Resolve 0 None], messageHandlers := Map.empty\<rparr>) \<and>
   timers (ping_client\<lparr>calls := [Resolve 0 None], messageHandlers := Map.empty\<rparr>) = [(id1, 0)] \<and>
   fire_timer (ping_client\<lparr>calls := [Resolve 0 None], messageHandlers := Map.empty\<rparr>) =
     ping_client\<lparr>calls := [Resolve 0 None], messageHandlers := Map.empty, timers := []\<rparr>"
proof -
  let ?s = "ping_client\<lparr>calls := [Resolve 0 None], messageHandlers := Map.empty\<rparr>"
  have h: "messageHandlers ping_client id1 = Some (PingHandler 0 id1) \<and> id1 \<noteq> [] \<and>
      pong id1 \<noteq> (JNull :: int json) \<and>
      get_prop (pong id1 :: int json) ''request_id'' = Some (JStr id1) \<and>
      get_prop (pong id1 :: int json) ''type'' = Some (JStr ''pong'')"
    by (simp add: ping_client_fields pong_def frame_simps id1_nonempty)
  note t = timers_never_cancelled [where N = js_ints and s = ping_client and opts = unary_options]
  from t [THEN conjunct1]
  have c: "timers (snd (sendChatCompletion js_ints unary_options ping_client)) = [(id1, 0)]"
    by (simp add: ping_client_fields)
  from t [THEN conjunct2, THEN conjunct2, THEN conjunct1, rule_format, OF h]
  have a: "handleMessage js_ints (pong id1) ping_client = Inr ?s"
    by (simp add: ping_client_fields)
  from t [THEN conjunct2, THEN conjunct1, rule_format, OF a]
  have b: "timers ?s = [(id1, 0)]"
    by (simp add: ping_client_fields)
  have e: "timers ?s = (id1, 0) # [] \<and> messageHandlers ?s id1 = None"
    by (simp add: ping_client_fields)
  from timers_never_cancelled [where N = js_ints and s = ?s and opts = unary_options,
      THEN conjunct2, THEN conjunct2, THEN conjunct2, rule_format, OF e]
  have "fire_timer ?s = ?s\<lparr>timers := []\<rparr>" .
  with c a b show ?thesis by simp
qed

section \<open>Routing\<close>

lemma call_handler_handlers:
  assumes "call_handler N h data s = Inr s'"
  shows "messageHandlers s' = messageHandlers s \<or>
         messageHandlers s' = (messageHandlers s)(requestId_of h := None)"
  using call_handler_effect [OF assms] by auto

lemma well_keyed_insert:
  assumes "well_keyed s" "messageHandlers s' = (messageHandlers s)(k \<mapsto> h)"
    "requestId_of h = k" "k \<noteq> []"
  shows "well_keyed s'"
  using assms by (auto simp: well_keyed_def split: if_splits)

lemma well_keyed_sub:
  assumes "well_keyed s"
    "\<And>k h. messageHandlers s' k = Some h \<Longrightarrow> messageHandlers s k = Some h"
  shows "well_keyed s'"
  using assms unfolding well_keyed_def by blast

lemma well_keyed_step:
  assumes "well_keyed s" "step N e s = Inr s'"
  shows "well_keyed s'"
proof (cases e)
  case (Send opts)
  with assms(2) have "s' = snd (sendChatCompletion N opts s)" by simp
  then show ?thesis
    by (intro well_keyed_insert [OF assms(1) _ _ generateUUID_nonempty [of s], where
          h = "ChatHandler (promises s) (fst (generateUUID s))
             (truthy N (Some (with_default (opt_stream opts) (JBool True)))) (opt_onChunk opts)"])
       (simp_all add: sendChatCompletion_eq)
next
  case Ping
  with assms(2) have "s' = snd (ping s)" by simp
  then show ?thesis
    by (intro well_keyed_insert [OF assms(1) _ _ generateUUID_nonempty [of s], where
          h = "PingHandler (promises s) (fst (generateUUID s))"])
       (simp_all add: ping_eq)
next
  case (Message data)
  with assms have m: "handleMessage N data s = Inr s'" by simp
  from handleMessage_cases [OF m] show ?thesis
  proof
    assume "s' = s" with assms(1) show ?thesis by simp
  next
    assume "\<exists>k h. messageHandlers s k = Some h \<and> call_handler N h data s = Inr s'"
    then obtain k h where "call_handler N h data s = Inr s'" by blast
    from call_handler_handlers [OF this] show ?thesis
      by (intro well_keyed_sub [OF assms(1)]) (auto split: if_splits)
  qed
next
  case TimerFires
  with assms(2) have "s' = fire_timer s" by simp
  then show ?thesis
    by (intro well_keyed_sub [OF assms(1)])
       (auto simp: fire_timer_def ping_timeout_def split: list.splits if_splits)
qed

lemma well_keyed_run:
  "well_keyed s \<Longrightarrow> run N evs s = Inr s' \<Longrightarrow> well_keyed s'"
proof (induction evs arbitrary: s)
  case Nil
  then show ?case by simp
next
  case (Cons e es)
  from Cons.prems(2) obtain s1 where s1: "step N e s = Inr s1" "run N es s1 = Inr s'"
    by (auto split: sum.splits)
  from Cons.IH [OF well_keyed_step [OF Cons.prems(1) s1(1)] s1(2)] show ?case .
qed

lemma well_keyed_new_client: "well_keyed (new_client rnd)"
  by (simp add: well_keyed_def new_client_def)

lemma call_handler_confined:
  assumes "call_handler N h data s = Inr s'"
  shows "confined (requestId_of h) (promise_of h) s s'"
proof (cases h)
  case (ChatHandler p k st oc)
  with assms show ?thesis
    by (auto simp: chat_handler_def Let_def confined_def
        split: if_splits option.splits sum.splits)
next
  case (PingHandler p k)
  with assms show ?thesis
    by (auto simp: ping_handler_def confined_def split: if_splits)
qed

text \<open>
  Against claim C6 as stated: the frame \<^verbatim>\<open>null\<close> bears no
  \<^verbatim>\<open>request_id\<close>, and \<^verbatim>\<open>handleMessage\<close> raises a \<^verbatim>\<open>TypeError\<close> on it.
\<close>

theorem routing_null_counterexample:
  "handleMessage js_ints JNull client0 = Inl TypeError"
  by (simp add: handleMessage_def)

text \<open>
  Claim C6, amended. In every state the client can reach, \<^verbatim>\<open>handleMessage\<close> does
  the following. On the frame \<^verbatim>\<open>null\<close> it raises a \<^verbatim>\<open>TypeError\<close> (reading
  \<^verbatim>\<open>request_id\<close> throws before anything is looked up or changed). On every other
  frame: when its \<^verbatim>\<open>request_id\<close> is absent or finds no handler, the frame has no
  effect, nothing is raised and the client is as before, so no call was made and the
  handler map is unchanged; when its \<^verbatim>\<open>request_id\<close> is the identifier \<open>k\<close> of a
  stored handler, the frame is given to that handler, which is the one that captured
  \<open>k\<close>, and to it alone: whatever the handler does is confined to the exchange \<open>k\<close> and
  its promise, every other handler, accumulator and promise being untouched.
\<close>

theorem routing:
  fixes s :: "'n client"
  assumes "run N evs (new_client rnd) = Inr s"
  shows "handleMessage N JNull s = Inl TypeError \<and>
         (\<forall>data. data \<noteq> JNull \<longrightarrow>
            (handler_at s (get_prop data ''request_id'') = None \<longrightarrow>
               handleMessage N data s = Inr s) \<and>
            (\<forall>k h. get_prop data ''request_id'' = Some (JStr k) \<and> messageHandlers s k = Some h \<longrightarrow>
               requestId_of h = k \<and>
               handleMessage N data s = call_handler N h data s \<and>
               (\<forall>s'. handleMessage N data s = Inr s' \<longrightarrow> confined k (promise_of h) s s')))"
proof (intro conjI allI impI)
  show "handleMessage N JNull s = Inl TypeError" by (simp add: handleMessage_def)
next
  fix data :: "'n json"
  assume "data \<noteq> JNull" "handler_at s (get_prop data ''request_id'') = None"
  then show "handleMessage N data s = Inr s" by (simp add: handleMessage_def)
next
  fix data :: "'n json" and k h
  assume n: "data \<noteq> JNull"
    and a: "get_prop data ''request_id'' = Some (JStr k) \<and> messageHandlers s k = Some h"
  from well_keyed_run [OF well_keyed_new_client assms] a
  have k: "requestId_of h = k" "k \<noteq> []" by (auto simp: well_keyed_def)
  then show "requestId_of h = k" by simp
  from a k n show d: "handleMessage N data s = call_handler N h data s"
    by (simp add: handleMessage_def)
  fix s' assume "handleMessage N data s = Inr s'"
  with d have "call_handler N h data s = Inr s'" by simp
  from call_handler_confined [OF this] k show "confined k (promise_of h) s s'" by simp
qed

lemma two_client_fields:
  "messageHandlers two_client =
     [id1 \<mapsto> ChatHandler 0 id1 True True, id2 \<mapsto> ChatHandler 1 id2 False False]"
  "calls two_client = []" "timers two_client = []" "fullResponse two_client = (\<lambda>p. [])"
proof -
  have s: "math_random streaming_client = draws_cycle" "drawn streaming_client = 31"
    "promises streaming_client = 1" "fullResponse streaming_client = (\<lambda>p. [])"
    by (auto simp: streaming_client_def sendChatCompletion_eq client0_fields)
  show "messageHandlers two_client =
     [id1 \<mapsto> ChatHandler 0 id1 True True, id2 \<mapsto> ChatHandler 1 id2 False False]"
    "calls two_client = []" "timers two_client = []" "fullResponse two_client = (\<lambda>p. [])"
    by (auto simp: two_client_def sendChatCompletion_eq second_uuid s streaming_client_fields
        unary_options_def)
qed

theorem routing_witness:
  "run js_ints [Send streaming_options, Send unary_options] (new_client draws_cycle) = Inr two_client \<and>
   handleMessage js_ints JNull two_client = Inl TypeError \<and>
   handleMessage js_ints (frame ''pong'' ''no-such-id'' []) two_client = Inr two_client \<and>
   handleMessage js_ints (JObj [(''type'', JStr ''pong'')]) two_client = Inr two_client \<and>
   handleMessage js_ints (stream_chunk id1 ''A'') two_client =
     Inr (two_client\<lparr>fullResponse := (\<lambda>p. [])(0 := ''A''), calls := [OnChunk 0 (JStr ''A'')]\<rparr>) \<and>
   confined id1 0 two_client
     (two_client\<lparr>fullResponse := (\<lambda>p. [])(0 := ''A''), calls := [OnChunk 0 (JStr ''A'')]\<rparr>) \<and>
   messageHandlers two_client id2 = Some (ChatHandler 1 id2 False False)"
proof -
  have r: "run js_ints [Send streaming_options, Send unary_options] (new_client draws_cycle) = Inr two_client"
    by (simp add: two_client_def streaming_client_def client0_def)
  have n: "frame ''pong'' ''no-such-id'' [] \<noteq> (JNull :: int json)"
    "JObj [(''type'', JStr ''pong'')] \<noteq> (JNull :: int json)"
    "stream_chunk id1 ''A'' \<noteq> (JNull :: int json)"
    by (simp_all add: frame_simps stream_chunk_def)
  note null = routing [OF r, THEN conjunct1]
  note rt = routing [OF r, THEN conjunct2, rule_format]
  have a: "handleMessage js_ints (frame ''pong'' ''no-such-id'' []) two_client = Inr two_client"
    using rt [OF n(1), THEN conjunct1]
    by (simp add: frame_simps two_client_fields id1_def id2_def)
  have b: "handleMessage js_ints (JObj [(''type'', JStr ''pong'')]) two_client = Inr two_client"
    using rt [OF n(2), THEN conjunct1] by simp
  have c: "handleMessage js_ints (stream_chunk id1 ''A'') two_client =
     Inr (two_client\<lparr>fullResponse := (\<lambda>p. [])(0 := ''A''), calls := [OnChunk 0 (JStr ''A'')]\<rparr>)"
    by (simp add: stream_chunk_def handleMessage_frame id1_nonempty two_client_fields
        chat_handler_def frame_simps delta_payload_def choice_content_def id1_id2)
  have d: "confined id1 0 two_client
     (two_client\<lparr>fullResponse := (\<lambda>p. [])(0 := ''A''), calls := [OnChunk 0 (JStr ''A'')]\<rparr>)"
    using rt [OF n(3), THEN conjunct2, rule_format, of id1 "ChatHandler 0 id1 True True",
        THEN conjunct2, THEN conjunct2, rule_format, OF _ c]
    by (simp add: stream_chunk_def frame_simps two_client_fields id1_id2)
  from r null a b c d show ?thesis by (simp add: two_client_fields id1_id2)
qed

section \<open>Exactly-once settlement and the heartbeat race\<close>

lemma step_handler_kept:
  assumes "step N e s = Inr s'" "messageHandlers s k = Some h"
    "generates e \<longrightarrow> id_unused (fst (generateUUID s)) s"
  shows "messageHandlers s' k = None \<or> messageHandlers s' k = Some h"
proof (cases e)
  case (Send opts)
  with assms show ?thesis by (auto simp: sendChatCompletion_eq id_unused_def split: if_splits)
next
  case Ping
  with assms show ?thesis by (auto simp: ping_eq id_unused_def split: if_splits)
next
  case (Message data)
  with assms have m: "handleMessage N data s = Inr s'" by simp
  from handleMessage_cases [OF m] show ?thesis
  proof
    assume "s' = s" with assms(2) show ?thesis by simp
  next
    assume "\<exists>k h. messageHandlers s k = Some h \<and> call_handler N h data s = Inr s'"
    then obtain k' h' where "call_handler N h' data s = Inr s'" by blast
    from call_handler_handlers [OF this] assms(2) show ?thesis by (auto split: if_splits)
  qed
next
  case TimerFires
  with assms show ?thesis
    by (auto simp: fire_timer_def ping_timeout_def split: list.splits if_splits)
qed

lemma step_absent_stays:
  assumes "step N e s = Inr s'" "messageHandlers s k = None"
    "generates e \<longrightarrow> fst (generateUUID s) \<noteq> k"
  shows "messageHandlers s' k = None"
proof (cases e)
  case (Send opts)
  with assms show ?thesis by (auto simp: sendChatCompletion_eq)
next
  case Ping
  with assms show ?thesis by (auto simp: ping_eq)
next
  case (Message data)
  with assms have m: "handleMessage N data s = Inr s'" by simp
  from handleMessage_cases [OF m] show ?thesis
  proof
    assume "s' = s" with assms(2) show ?thesis by simp
  next
    assume "\<exists>k h. messageHandlers s k = Some h \<and> call_handler N h data s = Inr s'"
    then obtain k' h' where "call_handler N h' data s = Inr s'" by blast
    from call_handler_handlers [OF this] assms(2) show ?thesis by (auto split: if_splits)
  qed
next
  case TimerFires
  with assms show ?thesis
    by (auto simp: fire_timer_def ping_timeout_def split: list.splits if_splits)
qed

lemma run_absent_stays:
  "messageHandlers s k = None \<Longrightarrow> run N evs s = Inr s' \<Longrightarrow> k \<notin> set (issued N evs s)
     \<Longrightarrow> messageHandlers s' k = None"
proof (induction evs arbitrary: s)
  case Nil
  then show ?case by simp
next
  case (Cons e es)
  from Cons.prems(2) obtain s1 where s1: "step N e s = Inr s1" "run N es s1 = Inr s'"
    by (auto split: sum.splits)
  from Cons.prems(3) s1(1) have i: "generates e \<longrightarrow> fst (generateUUID s) \<noteq> k"
    "k \<notin> set (issued N es s1)" by auto
  from Cons.IH [OF step_absent_stays [OF s1(1) Cons.prems(1) i(1)] s1(2) i(2)] show ?case .
qed

lemma step_calls_grow:
  assumes "step N e s = Inr s'"
  shows "\<exists>cs. calls s' = calls s @ cs"
proof (cases e)
  case (Send opts)
  with assms show ?thesis by (auto simp: sendChatCompletion_eq)
next
  case Ping
  with assms show ?thesis by (auto simp: ping_eq)
next
  case (Message data)
  with assms have m: "handleMessage N data s = Inr s'" by simp
  from handleMessage_cases [OF m] show ?thesis
  proof
    assume "s' = s" then show ?thesis by simp
  next
    assume "\<exists>k h. messageHandlers s k = Some h \<and> call_handler N h data s = Inr s'"
    then obtain k' h' where "call_handler N h' data s = Inr s'" by blast
    from call_handler_confined [OF this] have "take (length (calls s)) (calls s') = calls s"
      by (simp add: confined_def)
    then have "calls s' = calls s @ drop (length (calls s)) (calls s')"
      by (metis append_take_drop_id)
    then show ?thesis ..
  qed
next
  case TimerFires
  with assms show ?thesis
    by (auto simp: fire_timer_def ping_timeout_def split: list.splits if_splits)
qed

lemma run_calls_grow:
  "run N evs s = Inr s' \<Longrightarrow> \<exists>cs. calls s' = calls s @ cs"
proof (induction evs arbitrary: s)
  case Nil
  then show ?case by simp
next
  case (Cons e es)
  from Cons.prems obtain s1 where s1: "step N e s = Inr s1" "run N es s1 = Inr s'"
    by (auto split: sum.splits)
  from step_calls_grow [OF s1(1)] Cons.IH [OF s1(2)] show ?case by auto
qed

lemma settle_count_append:
  "settle_count p (cs @ ds) = settle_count p cs + settle_count p ds"
  by (simp add: settle_count_def)

lemma settle_count_zero: "settle_count p cs = 0 \<longleftrightarrow> (\<forall>c\<in>set cs. \<not> settles p c)"
  by (simp add: settle_count_def filter_empty_conv)

lemma inv_settled_once: "inv s \<Longrightarrow> settle_count q (calls s) \<le> 1"
  by (simp add: inv_def settled_once_def)

lemma inv_live_unsettled:
  "inv s \<Longrightarrow> messageHandlers s k = Some h \<Longrightarrow> settle_count (promise_of h) (calls s) = 0"
  by (simp add: inv_def live_unsettled_def)

text \<open>
  Claim C2. Take any state \<open>s\<close> the client reaches from its constructor by a run in
  which no identifier is generated while it is in use, and an exchange that is live in
  \<open>s\<close>: a handler \<open>h\<close> stored under \<open>k\<close>. Its promise is not settled in \<open>s\<close>.
  Let the next event be terminal for it, that is, let it call \<^verbatim>\<open>resolve\<close> or
  \<^verbatim>\<open>reject\<close> of the promise (a frame or the timeout). Then right after that event
  the exchange is gone from the handler map; and after any further events that do not
  generate the identifier \<open>k\<close> again it is still gone, every frame bearing \<open>k\<close> is
  dropped (the client is unchanged and nothing is raised), the promise has been settled
  by exactly one call, and no promise at all has been settled by more than one call, so
  never by both \<^verbatim>\<open>resolve\<close> and \<^verbatim>\<open>reject\<close>.
\<close>

theorem settled_exactly_once:
  assumes pre: "run N pre (new_client rnd) = Inr s" "unique_ids N pre (new_client rnd)"
    and live: "messageHandlers s k = Some h"
    and e: "step N e s = Inr s1" "generates e \<longrightarrow> id_unused (fst (generateUUID s)) s"
    and terminal: "settle_count (promise_of h) (calls s1) \<noteq> 0"
    and post: "run N post s1 = Inr s2" "unique_ids N post s1" "k \<notin> set (issued N post s1)"
  shows "settle_count (promise_of h) (calls s) = 0 \<and>
         messageHandlers s1 k = None \<and> messageHandlers s2 k = None \<and>
         settle_count (promise_of h) (calls s2) = 1 \<and>
         (\<forall>q. settle_count q (calls s2) \<le> 1) \<and>
         (\<forall>data. data \<noteq> JNull \<and> get_prop data ''request_id'' = Some (JStr k) \<longrightarrow>
            handleMessage N data s2 = Inr s2)"
proof -
  have i: "inv s" by (rule inv_run [OF inv_new_client pre])
  have i1: "inv s1" by (rule inv_step [OF i e])
  have i2: "inv s2" by (rule inv_run [OF i1 post(1,2)])
  have z: "settle_count (promise_of h) (calls s) = 0" by (rule inv_live_unsettled [OF i live])
  have a1: "messageHandlers s1 k = None"
  proof (rule ccontr)
    assume "messageHandlers s1 k \<noteq> None"
    with step_handler_kept [OF e(1) live e(2)] have "messageHandlers s1 k = Some h" by simp
    from inv_live_unsettled [OF i1 this] terminal show False by simp
  qed
  have a2: "messageHandlers s2 k = None" by (rule run_absent_stays [OF a1 post(1,3)])
  from run_calls_grow [OF post(1)] obtain cs where "calls s2 = calls s1 @ cs" ..
  then have "settle_count (promise_of h) (calls s1) \<le> settle_count (promise_of h) (calls s2)"
    by (simp add: settle_count_append)
  with terminal inv_settled_once [OF i2, of "promise_of h"]
  have c: "settle_count (promise_of h) (calls s2) = 1" by simp
  have d: "handleMessage N data s2 = Inr s2"
    if "data \<noteq> JNull \<and> get_prop data ''request_id'' = Some (JStr k)" for data
    using that a2 by (simp add: handleMessage_def)
  from z a1 a2 c d inv_settled_once [OF i2] show ?thesis by blast
qed


lemma run_step: "step N e s = Inr s' \<Longrightarrow> run N (e # es) s = run N es s'"
  by simp

lemma streaming_client_rng:
  "math_random streaming_client = draws_cycle" "drawn streaming_client = 31"
  "promises streaming_client = 1"
  by (simp_all add: streaming_client_def sendChatCompletion_eq client0_fields)

theorem settled_exactly_once_witness:
  "(case run js_ints
      [Send streaming_options, Message (error_frame id1 ''boom''),
       Message (stream_complete id1), Ping, Message (pong id2)] (new_client draws_cycle) of
      Inl x \<Rightarrow> False
    | Inr s2 \<Rightarrow>
        calls s2 = [Reject 0 ''boom'', Resolve 1 None] \<and>
        messageHandlers s2 id1 = None \<and>
        settle_count 0 (calls s2) = 1 \<and>
        handleMessage js_ints (stream_complete id1) s2 = Inr s2)"
proof -
  let ?s = "streaming_client"
  let ?s1 = "streaming_client\<lparr>calls := [Reject 0 ''boom''], messageHandlers := Map.empty\<rparr>"
  let ?post = "[Message (stream_complete id1), Ping, Message (pong id2)] :: int event list"
  have pre: "run js_ints [Send streaming_options] (new_client draws_cycle) = Inr ?s"
    "unique_ids js_ints [Send streaming_options] (new_client draws_cycle)"
    using client0_uuid
    by (simp_all add: streaming_client_def client0_def id_unused_def new_client_def)
  have live: "messageHandlers ?s id1 = Some (ChatHandler 0 id1 True True)"
    by (simp add: streaming_client_fields)
  have e: "step js_ints (Message (error_frame id1 ''boom'')) ?s = Inr ?s1"
    by (simp add: handleMessage_frame error_frame_def id1_nonempty streaming_client_fields
        chat_handler_def frame_simps)
  have g: "generates (Message (error_frame id1 ''boom'') :: int event) \<longrightarrow>
             id_unused (fst (generateUUID ?s)) ?s"
    by simp
  have t: "settle_count (promise_of (ChatHandler 0 id1 True True)) (calls ?s1) \<noteq> 0"
    by (simp add: settle_count_def)
  have u: "fst (generateUUID ?s1) = id2"
    by (rule second_uuid) (simp_all add: streaming_client_rng)
  have c: "step js_ints (Message (stream_complete id1)) ?s1 = Inr ?s1"
    by (simp add: handleMessage_frame stream_complete_def id1_nonempty)
  obtain s2 where post: "run js_ints ?post ?s1 = Inr s2"
    and s2: "calls s2 = [Reject 0 ''boom'', Resolve 1 None]"
    using c
    by (simp add: ping_eq u handleMessage_frame pong_def id2_nonempty ping_handler_def frame_simps
        streaming_client_rng)
  have q: "unique_ids js_ints ?post ?s1" "id1 \<notin> set (issued js_ints ?post ?s1)"
    using c
    by (simp_all add: u id_unused_def id1_id2 streaming_client_fields ping_eq
        handleMessage_frame pong_def id2_nonempty ping_handler_def frame_simps)
  from settled_exactly_once [OF pre live e g t post q] s2
  have concl: "calls s2 = [Reject 0 ''boom'', Resolve 1 None] \<and>
        messageHandlers s2 id1 = None \<and>
        settle_count 0 (calls s2) = 1 \<and>
        handleMessage js_ints (stream_complete id1) s2 = Inr s2"
    by (simp add: stream_complete_def frame_simps)
  have st: "step js_ints (Send streaming_options) (new_client draws_cycle) = Inr ?s"
    by (simp add: streaming_client_def client0_def)
  have full: "run js_ints
      [Send streaming_options, Message (error_frame id1 ''boom''),
       Message (stream_complete id1), Ping, Message (pong id2)] (new_client draws_cycle) = Inr s2"
    by (simp only: run_step [OF st] run_step [OF e] post)
  show ?thesis
    by (simp only: full sum.case) (rule concl)
qed


lemma settled_stays:
  assumes "inv s1" "settle_count p (calls s0) = 0" "calls s1 = calls s0 @ [c]" "settles p c"
    and "run N post s1 = Inr s2" "unique_ids N post s1"
  shows "c \<in> set (calls s2) \<and> (\<forall>c'. c' \<in> set (calls s2) \<and> settles p c' \<longrightarrow> c' = c)"
proof -
  have i2: "inv s2" by (rule inv_run [OF assms(1,5,6)])
  from run_calls_grow [OF assms(5)] obtain cs where cs: "calls s2 = calls s1 @ cs" ..
  from inv_settled_once [OF i2, of p] assms(2,4)
  have "settle_count p cs = 0"
    by (simp add: cs assms(3) settle_count_append) (simp add: settle_count_def)
  then have a: "\<forall>c'\<in>set cs. \<not> settles p c'" by (simp add: settle_count_zero)
  from assms(2) have b: "\<forall>c'\<in>set (calls s0). \<not> settles p c'" by (simp add: settle_count_zero)
  from a b show ?thesis by (auto simp: cs assms(3))
qed

text \<open>
  Claim C4. Take a reachable state \<open>s\<close> as in C2 with a live heartbeat: the handler of
  \<^verbatim>\<open>ping\<close> for promise \<open>p\<close> stored under \<open>k\<close> (it is the handler that captured
  \<open>k\<close>). The deadline elapsing is the event of its timer firing, and "before" is the
  order of events. If the matching \<^verbatim>\<open>pong\<close> is delivered first, the promise is
  resolved and the handler removed, and whatever happens afterwards, the timer firing
  included, \<^verbatim>\<open>reject\<close> of \<open>p\<close> is never called. If the timer fires first, the
  promise is rejected with the error \<^verbatim>\<open>Ping timeout\<close> and the handler removed, and
  a later frame bearing \<open>k\<close> (a late \<^verbatim>\<open>pong\<close>), as long as \<open>k\<close> was not generated
  again, is dropped: the client is unchanged, and \<^verbatim>\<open>resolve\<close> of \<open>p\<close> is never
  called.
\<close>

theorem heartbeat_race:
  assumes pre: "run N pre (new_client rnd) = Inr s" "unique_ids N pre (new_client rnd)"
    and live: "messageHandlers s k = Some (PingHandler p k')"
  shows "k' = k \<and>
    (\<forall>data. data \<noteq> JNull \<and> get_prop data ''request_id'' = Some (JStr k) \<and>
            get_prop data ''type'' = Some (JStr ''pong'') \<longrightarrow>
       handleMessage N data s =
         Inr (s\<lparr>calls := calls s @ [Resolve p None],
                messageHandlers := (messageHandlers s)(k := None)\<rparr>) \<and>
       (\<forall>post s2.
          run N post (s\<lparr>calls := calls s @ [Resolve p None],
                        messageHandlers := (messageHandlers s)(k := None)\<rparr>) = Inr s2 \<and>
          unique_ids N post (s\<lparr>calls := calls s @ [Resolve p None],
                               messageHandlers := (messageHandlers s)(k := None)\<rparr>) \<longrightarrow>
          Resolve p None \<in> set (calls s2) \<and> (\<forall>m. Reject p m \<notin> set (calls s2)))) \<and>
    (\<forall>ts. timers s = (k, p) # ts \<longrightarrow>
       fire_timer s =
         s\<lparr>timers := ts, messageHandlers := (messageHandlers s)(k := None),
           calls := calls s @ [Reject p ''Ping timeout'']\<rparr> \<and>
       (\<forall>post s2 data.
          run N post (fire_timer s) = Inr s2 \<and> unique_ids N post (fire_timer s) \<and>
          k \<notin> set (issued N post (fire_timer s)) \<and>
          data \<noteq> JNull \<and> get_prop data ''request_id'' = Some (JStr k) \<longrightarrow>
          handleMessage N data s2 = Inr s2 \<and>
          Reject p ''Ping timeout'' \<in> set (calls s2) \<and> (\<forall>v. Resolve p v \<notin> set (calls s2))))"
proof -
  have i: "inv s" by (rule inv_run [OF inv_new_client pre])
  then have "well_keyed s" by (simp add: inv_def)
  then have "requestId_of (PingHandler p k') = k \<and> k \<noteq> []"
    using live unfolding well_keyed_def by blast
  then have k: "k' = k" "k \<noteq> []" by simp_all
  from inv_live_unsettled [OF i live] have z: "settle_count p (calls s) = 0" by simp
  have A: "handleMessage N data s =
         Inr (s\<lparr>calls := calls s @ [Resolve p None],
                messageHandlers := (messageHandlers s)(k := None)\<rparr>) \<and>
       (\<forall>post s2.
          run N post (s\<lparr>calls := calls s @ [Resolve p None],
                        messageHandlers := (messageHandlers s)(k := None)\<rparr>) = Inr s2 \<and>
          unique_ids N post (s\<lparr>calls := calls s @ [Resolve p None],
                               messageHandlers := (messageHandlers s)(k := None)\<rparr>) \<longrightarrow>
          Resolve p None \<in> set (calls s2) \<and> (\<forall>m. Reject p m \<notin> set (calls s2)))"
    if d: "data \<noteq> JNull \<and> get_prop data ''request_id'' = Some (JStr k) \<and>
            get_prop data ''type'' = Some (JStr ''pong'')" for data
  proof -
    let ?s1 = "s\<lparr>calls := calls s @ [Resolve p None],
                messageHandlers := (messageHandlers s)(k := None)\<rparr>"
    from d live k have h: "handleMessage N data s = Inr ?s1"
      by (simp add: handleMessage_def ping_handler_def)
    have i1: "inv ?s1" by (rule inv_handleMessage [OF i h])
    have "Resolve p None \<in> set (calls s2) \<and> (\<forall>m. Reject p m \<notin> set (calls s2))"
      if r: "run N post ?s1 = Inr s2 \<and> unique_ids N post ?s1" for post s2
    proof -
      from r have r1: "run N post ?s1 = Inr s2" and r2: "unique_ids N post ?s1" by simp_all
      have "Resolve p None \<in> set (calls s2) \<and>
            (\<forall>c'. c' \<in> set (calls s2) \<and> settles p c' \<longrightarrow> c' = Resolve p None)"
        by (rule settled_stays [OF i1 z _ _ r1 r2]) simp_all
      then show ?thesis by fastforce
    qed
    with h show ?thesis by blast
  qed
  have B: "fire_timer s =
         s\<lparr>timers := ts, messageHandlers := (messageHandlers s)(k := None),
           calls := calls s @ [Reject p ''Ping timeout'']\<rparr> \<and>
       (\<forall>post s2 data.
          run N post (fire_timer s) = Inr s2 \<and> unique_ids N post (fire_timer s) \<and>
          k \<notin> set (issued N post (fire_timer s)) \<and>
          data \<noteq> JNull \<and> get_prop data ''request_id'' = Some (JStr k) \<longrightarrow>
          handleMessage N data s2 = Inr s2 \<and>
          Reject p ''Ping timeout'' \<in> set (calls s2) \<and> (\<forall>v. Resolve p v \<notin> set (calls s2)))"
    if t: "timers s = (k, p) # ts" for ts
  proof -
    let ?s1 = "s\<lparr>timers := ts, messageHandlers := (messageHandlers s)(k := None),
           calls := calls s @ [Reject p ''Ping timeout'']\<rparr>"
    from t live have f: "fire_timer s = ?s1"
      by (simp add: fire_timer_def ping_timeout_def)
    have i1: "inv ?s1" using inv_fire_timer [OF i] by (simp only: f)
    have "handleMessage N data s2 = Inr s2 \<and>
          Reject p ''Ping timeout'' \<in> set (calls s2) \<and> (\<forall>v. Resolve p v \<notin> set (calls s2))"
      if r: "run N post (fire_timer s) = Inr s2 \<and> unique_ids N post (fire_timer s) \<and>
          k \<notin> set (issued N post (fire_timer s)) \<and>
          data \<noteq> JNull \<and> get_prop data ''request_id'' = Some (JStr k)" for post s2 data
    proof -
      from r have r1: "run N post ?s1 = Inr s2" and r2: "unique_ids N post ?s1"
        and r3: "k \<notin> set (issued N post ?s1)"
        and r4: "data \<noteq> JNull" "get_prop data ''request_id'' = Some (JStr k)"
        by (simp_all only: f) simp_all
      have "messageHandlers ?s1 k = None" by simp
      from run_absent_stays [OF this r1 r3] r4 have a: "handleMessage N data s2 = Inr s2"
        by (simp add: handleMessage_def)
      have "Reject p ''Ping timeout'' \<in> set (calls s2) \<and>
            (\<forall>c'. c' \<in> set (calls s2) \<and> settles p c' \<longrightarrow> c' = Reject p ''Ping timeout'')"
        by (rule settled_stays [OF i1 z _ _ r1 r2]) simp_all
      with a show ?thesis by fastforce
    qed
    with f show ?thesis by blast
  qed
  from k(1) A B show ?thesis by blast
qed


theorem heartbeat_race_witness:
  "run js_ints [Ping, Message (pong id1), TimerFires] (new_client draws_cycle) =
     Inr (ping_client\<lparr>calls := [Resolve 0 None], messageHandlers := Map.empty, timers := []\<rparr>) \<and>
   Reject 0 ''Ping timeout'' \<notin>
     set (calls (ping_client\<lparr>calls := [Resolve 0 None], messageHandlers := Map.empty, timers := []\<rparr>)) \<and>
   run js_ints [Ping, TimerFires, Message (pong id1)] (new_client draws_cycle) =
     Inr (ping_client\<lparr>timers := [], messageHandlers := Map.empty,
                      calls := [Reject 0 ''Ping timeout'']\<rparr>) \<and>
   (\<forall>v. Resolve 0 v \<notin>
     set (calls (ping_client\<lparr>timers := [], messageHandlers := Map.empty,
                      calls := [Reject 0 ''Ping timeout'']\<rparr>)))"
proof -
  let ?sA = "ping_client\<lparr>calls := calls ping_client @ [Resolve 0 None],
                messageHandlers := (messageHandlers ping_client)(id1 := None)\<rparr>"
  let ?sB = "ping_client\<lparr>timers := [], messageHandlers := (messageHandlers ping_client)(id1 := None),
           calls := calls ping_client @ [Reject 0 ''Ping timeout'']\<rparr>"
  have st: "step js_ints Ping (new_client draws_cycle) = Inr ping_client"
    by (simp add: ping_client_def client0_def)
  have pre: "run js_ints [Ping] (new_client draws_cycle) = Inr ping_client"
    "unique_ids js_ints [Ping] (new_client draws_cycle)"
    using client0_uuid
    by (simp_all add: ping_client_def client0_def id_unused_def new_client_def)
  have live: "messageHandlers ping_client id1 = Some (PingHandler 0 id1)"
    by (simp add: ping_client_fields)
  note race = heartbeat_race [OF pre live]
  have pg: "pong id1 \<noteq> (JNull :: int json) \<and>
            get_prop (pong id1 :: int json) ''request_id'' = Some (JStr id1) \<and>
            get_prop (pong id1 :: int json) ''type'' = Some (JStr ''pong'')"
    by (simp add: pong_def frame_simps)
  from race [THEN conjunct2, THEN conjunct1, rule_format, OF pg]
  have a: "handleMessage js_ints (pong id1) ping_client = Inr ?sA"
    and a': "\<forall>post s2. run js_ints post ?sA = Inr s2 \<and> unique_ids js_ints post ?sA \<longrightarrow>
          Resolve 0 None \<in> set (calls s2) \<and> (\<forall>m. Reject 0 m \<notin> set (calls s2))"
    by blast+
  have fa: "step js_ints TimerFires ?sA = Inr (?sA\<lparr>timers := []\<rparr>)"
    by (simp add: fire_timer_def ping_timeout_def ping_client_fields)
  from a' [rule_format, of "[TimerFires]" "?sA\<lparr>timers := []\<rparr>"] fa
  have na: "\<forall>m. Reject 0 m \<notin> set (calls (?sA\<lparr>timers := []\<rparr>))"
    by simp
  have ra: "run js_ints [Ping, Message (pong id1), TimerFires] (new_client draws_cycle) =
      Inr (?sA\<lparr>timers := []\<rparr>)"
  proof -
    from a have sa: "step js_ints (Message (pong id1)) ping_client = Inr ?sA" by simp
    show ?thesis
      by (simp only: run_step [OF st] run_step [OF sa] run_step [OF fa] run.simps(1))
  qed
  have tb: "timers ping_client = [(id1, 0)]" by (simp add: ping_client_fields)
  from race [THEN conjunct2, THEN conjunct2, rule_format, OF tb]
  have b: "fire_timer ping_client = ?sB"
    and b': "\<forall>post s2 data.
          run js_ints post (fire_timer ping_client) = Inr s2 \<and>
          unique_ids js_ints post (fire_timer ping_client) \<and>
          id1 \<notin> set (issued js_ints post (fire_timer ping_client)) \<and>
          data \<noteq> JNull \<and> get_prop data ''request_id'' = Some (JStr id1) \<longrightarrow>
          handleMessage js_ints data s2 = Inr s2 \<and>
          Reject 0 ''Ping timeout'' \<in> set (calls s2) \<and> (\<forall>v. Resolve 0 v \<notin> set (calls s2))"
    by blast+
  from b' [rule_format, of "[]" ?sB "pong id1"] b pg
  have db: "handleMessage js_ints (pong id1) ?sB = Inr ?sB"
    and nb: "\<forall>v. Resolve 0 v \<notin> set (calls ?sB)"
    by simp_all
  have rb: "run js_ints [Ping, TimerFires, Message (pong id1)] (new_client draws_cycle) = Inr ?sB"
  proof -
    from b have sb: "step js_ints TimerFires ping_client = Inr ?sB" by simp
    from db have sd: "step js_ints (Message (pong id1)) ?sB = Inr ?sB" by simp
    show ?thesis
      by (simp only: run_step [OF st] run_step [OF sb] run_step [OF sd] run.simps(1))
  qed
  from ra na rb nb show ?thesis
    by (simp add: ping_client_fields)
qed

end
